theory Spec2Isabelle
  imports Main
begin

section \<open>Values\<close>

text \<open>
  The notebook linter of \<^verbatim>\<open>tools/tensorflow_docs/tools/nblint/linter.py\<close>.
  A parsed notebook is whatever \<^verbatim>\<open>json.loads\<close> returns: a Python value built from
  \<^verbatim>\<open>None\<close>, booleans, numbers, strings, lists and dictionaries. A dictionary is an
  association list read with \<open>map_of\<close>, its keys in insertion order. JSON numbers
  are integers here: the linter never computes with a number, it only tells a
  dictionary from the rest.
\<close>

datatype json =
    JNull
  | JBool bool
  | JInt int
  | JStr string
  | JList "json list"
  | JObj "(string \<times> json) list"

text \<open>
  What a lint callback hands back. The contract asks for a Boolean; Python lets the
  callback return anything, and \<^verbatim>\<open>add_entry\<close> checks it at run time.
\<close>

datatype pyval = PBool bool | PNone | PInt int | PStr string

datatype error =
    AttributeError
  | KeyError
  | OSError
  | TypeError string
  | SystemExit nat
  | Exception string

type_synonym path = string

subsection \<open>Python primitives used by the linter\<close>

fun isinstance_bool :: "pyval \<Rightarrow> bool" where
  "isinstance_bool (PBool b) = True"
| "isinstance_bool v = False"

fun truthy :: "pyval \<Rightarrow> bool" where
  "truthy (PBool b) = b"
| "truthy PNone = False"
| "truthy (PInt i) = (i \<noteq> 0)"
| "truthy (PStr s) = (s \<noteq> [])"

text \<open>\<^verbatim>\<open>not data\<close> on a parsed value.\<close>

fun json_truthy :: "json \<Rightarrow> bool" where
  "json_truthy JNull = False"
| "json_truthy (JBool b) = b"
| "json_truthy (JInt i) = (i \<noteq> 0)"
| "json_truthy (JStr s) = (s \<noteq> [])"
| "json_truthy (JList xs) = (xs \<noteq> [])"
| "json_truthy (JObj kvs) = (kvs \<noteq> [])"

text \<open>\<^verbatim>\<open>x.get(k)\<close>: only a dictionary has the method; a missing key gives \<^verbatim>\<open>None\<close>.\<close>

fun py_get :: "json \<Rightarrow> string \<Rightarrow> error + json" where
  "py_get (JObj kvs) k = (case map_of kvs k of None \<Rightarrow> Inr JNull | Some v \<Rightarrow> Inr v)"
| "py_get v k = Inl AttributeError"

text \<open>\<^verbatim>\<open>d[k]\<close> on a dictionary: a missing key raises.\<close>

fun py_getitem :: "json \<Rightarrow> string \<Rightarrow> error + json" where
  "py_getitem (JObj kvs) k = (case map_of kvs k of None \<Rightarrow> Inl KeyError | Some v \<Rightarrow> Inr v)"
| "py_getitem v k = Inl (TypeError ''not subscriptable with a string'')"

fun is_JStr :: "json \<Rightarrow> bool" where
  "is_JStr (JStr s) = True"
| "is_JStr v = False"

fun the_JStr :: "json \<Rightarrow> string" where
  "the_JStr (JStr s) = s"
| "the_JStr v = []"

text \<open>
  \<^verbatim>\<open>"".join(x)\<close>: \<open>x\<close> is iterated and every item must be a string. A string
  iterates over its characters, a dictionary over its keys.
\<close>

fun py_join :: "json \<Rightarrow> error + string" where
  "py_join (JList xs) =
     (if list_all is_JStr xs then Inr (concat (map the_JStr xs))
      else Inl (TypeError ''sequence item: expected str instance''))"
| "py_join (JStr s) = Inr s"
| "py_join (JObj kvs) = Inr (concat (map fst kvs))"
| "py_join v = Inl (TypeError ''can only join an iterable'')"

fun isinstance_list :: "json \<Rightarrow> bool" where
  "isinstance_list (JList xs) = True"
| "isinstance_list v = False"

fun the_JList :: "json \<Rightarrow> json list" where
  "the_JList (JList xs) = xs"
| "the_JList v = []"

text \<open>\<^verbatim>\<open>any\<close> and \<^verbatim>\<open>all\<close> over a list of Python values.\<close>

definition py_any :: "pyval list \<Rightarrow> bool" where
  "py_any vs = list_ex truthy vs"

definition py_all :: "pyval list \<Rightarrow> bool" where
  "py_all vs = list_all truthy vs"

text \<open>\<^verbatim>\<open>enumerate\<close>.\<close>

definition enumerate_list :: "'a list \<Rightarrow> (nat \<times> 'a) list" where
  "enumerate_list xs = zip [0..<length xs] xs"

text \<open>Decimal rendering of a number inside an f-string.\<close>

definition digit_char :: "nat \<Rightarrow> char" where
  "digit_char d = ''0123456789'' ! d"

fun str_of_nat :: "nat \<Rightarrow> string" where
  "str_of_nat n =
     (if n < 10 then [digit_char n] else str_of_nat (n div 10) @ [digit_char (n mod 10)])"

declare str_of_nat.simps [simp del]

definition str_of_int :: "int \<Rightarrow> string" where
  "str_of_int i = (if i < 0 then CHR ''-'' # str_of_nat (nat (- i)) else str_of_nat (nat i))"

text \<open>\<^verbatim>\<open>f"{v}"\<close>: the \<^verbatim>\<open>str\<close> of the value.\<close>

fun py_format :: "pyval \<Rightarrow> string" where
  "py_format (PBool b) = (if b then ''True'' else ''False'')"
| "py_format PNone = ''None''"
| "py_format (PInt i) = str_of_int i"
| "py_format (PStr s) = s"

section \<open>Lints and the registry\<close>

text \<open>
  \<^verbatim>\<open>decorator.Options\<close> and \<^verbatim>\<open>decorator.Lint\<close> are imported by the linter; the
  fields below are the attributes the linter reads (\<^verbatim>\<open>lint.name\<close>,
  \<^verbatim>\<open>lint.message\<close>, \<^verbatim>\<open>lint.scope\<close>, \<^verbatim>\<open>lint.cond\<close>, \<^verbatim>\<open>lint.style\<close>) and the
  method it calls (\<^verbatim>\<open>lint.run(source, cell, path)\<close>). A \<open>cond\<close> that is neither
  \<^verbatim>\<open>Cond.ANY\<close> nor \<^verbatim>\<open>Cond.ALL\<close> is \<open>None\<close>. The callback is a function of its three
  arguments: it keeps no state between calls and does not raise.
\<close>

datatype scope = CELLS | CODE | TEXT | FILE

datatype cond = Cond_ANY | Cond_ALL

record lint =
  name :: string
  message :: "string option"
  scope :: scope
  cond :: "cond option"
  style :: string
  lint_run :: "string \<Rightarrow> json \<Rightarrow> path \<Rightarrow> pyval"

text \<open>\<^verbatim>\<open>lint_dict[scope][cond]\<close>: a dictionary of dictionaries of lists.\<close>

type_synonym lint_dict = "scope \<rightharpoonup> (cond \<rightharpoonup> lint list)"

definition lookup_lints :: "lint_dict \<Rightarrow> scope \<Rightarrow> cond \<Rightarrow> error + lint list" where
  "lookup_lints d s c =
     (case d s of None \<Rightarrow> Inl KeyError
      | Some by_cond \<Rightarrow> (case by_cond c of None \<Rightarrow> Inl KeyError | Some ls \<Rightarrow> Inr ls))"

section \<open>The status report\<close>

record LintStatusEntry =
  lint :: lint
  is_success :: bool
  entry_name :: string
  group :: "string option"
  is_group_entry :: bool

record LinterStatus =
  status_path :: path
  verbose :: bool
  status_list :: "LintStatusEntry list"

definition LinterStatus_init :: "path \<Rightarrow> bool \<Rightarrow> LinterStatus" where
  "LinterStatus_init pth v = \<lparr>status_path = pth, verbose = v, status_list = []\<rparr>"

text \<open>
  \<^verbatim>\<open>add_entry\<close> mutates the report or raises. The result is the outcome together
  with the report afterwards, so that what a raise leaves behind is visible.
\<close>

definition add_entry ::
  "lint \<Rightarrow> pyval \<Rightarrow> string option \<Rightarrow> string option \<Rightarrow> bool \<Rightarrow> LinterStatus
     \<Rightarrow> (error + unit) \<times> LinterStatus" where
  "add_entry l v nm grp is_member st =
     (case v of
        PBool b \<Rightarrow>
          (let nm' = (case nm of None \<Rightarrow> name l | Some n \<Rightarrow> (if n \<noteq> [] then n else name l));
               entry = \<lparr>lint = l, is_success = b, entry_name = nm', group = grp,
                        is_group_entry = is_member\<rparr>
           in (Inr (), st\<lparr>status_list := status_list st @ [entry]\<rparr>))
      | _ \<Rightarrow> (Inl (TypeError (''Lint status must return Boolean, got: '' @ py_format v)), st))"

text \<open>The property \<^verbatim>\<open>LinterStatus.is_success\<close>: a loop that breaks at the first failure.\<close>

fun is_success_loop :: "LintStatusEntry list \<Rightarrow> bool" where
  "is_success_loop [] = True"
| "is_success_loop (entry # rest) =
     (if \<not> is_group_entry entry \<and> \<not> is_success entry then False
      else is_success_loop rest)"

definition LinterStatus_is_success :: "LinterStatus \<Rightarrow> bool" where
  "LinterStatus_is_success st = is_success_loop (status_list st)"

section \<open>The dispatch engine\<close>

text \<open>
  What the linter takes from outside: the file system behind \<^verbatim>\<open>path.read_text\<close>
  (no text: the read raises), \<^verbatim>\<open>json.loads\<close> (\<open>None\<close>: it raises
  \<^verbatim>\<open>JSONDecodeError\<close>), and the members of the enumeration
  \<^verbatim>\<open>decorator.Options.Cond\<close> in the order Python iterates them.
\<close>

record world =
  read_text :: "path \<rightharpoonup> string"
  json_loads :: "string \<Rightarrow> json option"
  Cond_members :: "cond list"

text \<open>
  \<^verbatim>\<open>_load_notebook\<close>. The \<^verbatim>\<open>except\<close> clause catches \<^verbatim>\<open>JSONDecodeError\<close> and
  \<^verbatim>\<open>ValueError\<close> only: the \<^verbatim>\<open>AttributeError\<close> of \<^verbatim>\<open>data.get\<close> on a value
  that is no dictionary and the \<^verbatim>\<open>SystemExit\<close> of \<^verbatim>\<open>sys.exit(1)\<close> both leave the
  function. Messages printed to the standard error stream are not modelled.
\<close>

definition load_notebook :: "world \<Rightarrow> path \<Rightarrow> error + (json \<times> string)" where
  "load_notebook w pth =
     (case read_text w pth of
        None \<Rightarrow> Inl OSError
      | Some source \<Rightarrow>
          (case json_loads w source of
             None \<Rightarrow> Inr (JNull, source)
           | Some data \<Rightarrow>
               (case py_get data ''cells'' of
                  Inl e \<Rightarrow> Inl e
                | Inr cells \<Rightarrow>
                    if \<not> isinstance_list cells then Inl (SystemExit 1)
                    else Inr (data, source))))"

text \<open>Iterating a parsed value, as \<^verbatim>\<open>enumerate\<close> does.\<close>

fun py_iter :: "json \<Rightarrow> error + json list" where
  "py_iter (JList xs) = Inr xs"
| "py_iter (JStr s) = Inr (map (\<lambda>c. JStr [c]) s)"
| "py_iter (JObj kvs) = Inr (map (\<lambda>kv. JStr (fst kv)) kvs)"
| "py_iter v = Inl (TypeError ''object is not iterable'')"

text \<open>
  The loop of \<^verbatim>\<open>_run_lint_group\<close> over \<^verbatim>\<open>enumerate(data.get("cells"))\<close>, with
  \<^verbatim>\<open>is_success_list\<close> and the report as its state.
\<close>

fun lint_cells ::
  "lint \<Rightarrow> path \<Rightarrow> (nat \<times> json) list \<Rightarrow> pyval list \<Rightarrow> LinterStatus
     \<Rightarrow> (error + pyval list) \<times> LinterStatus" where
  "lint_cells l pth [] is_success_list st = (Inr is_success_list, st)"
| "lint_cells l pth ((cell_idx, cell) # rest) is_success_list st =
     (case py_get cell ''cell_type'' of
        Inl e \<Rightarrow> (Inl e, st)
      | Inr cell_type \<Rightarrow>
          if scope l = TEXT \<and> cell_type \<noteq> JStr ''markdown'' then
            lint_cells l pth rest is_success_list st
          else if scope l = CODE \<and> cell_type \<noteq> JStr ''code'' then
            lint_cells l pth rest is_success_list st
          else
            (case py_getitem cell ''source'' of
               Inl e \<Rightarrow> (Inl e, st)
             | Inr src \<Rightarrow>
                 (case py_join src of
                    Inl e \<Rightarrow> (Inl e, st)
                  | Inr source \<Rightarrow>
                      (let v = lint_run l source cell pth;
                           is_success_list' = is_success_list @ [v];
                           nm = name l @ ''__cell_'' @ str_of_nat cell_idx
                       in (case add_entry l v (Some nm) (Some (name l)) True st of
                             (Inl e, st') \<Rightarrow> (Inl e, st')
                           | (Inr u, st') \<Rightarrow> lint_cells l pth rest is_success_list' st')))))"

definition run_lint_group ::
  "lint \<Rightarrow> json \<Rightarrow> path \<Rightarrow> LinterStatus \<Rightarrow> (error + bool) \<times> LinterStatus" where
  "run_lint_group l data pth st =
     (case py_get data ''cells'' of
        Inl e \<Rightarrow> (Inl e, st)
      | Inr cells \<Rightarrow>
          (case py_iter cells of
             Inl e \<Rightarrow> (Inl e, st)
           | Inr cs \<Rightarrow>
               (case lint_cells l pth (enumerate_list cs) [] st of
                  (Inl e, st') \<Rightarrow> (Inl e, st')
                | (Inr is_success_list, st') \<Rightarrow>
                    (case cond l of
                       Some Cond_ANY \<Rightarrow> (Inr (py_any is_success_list), st')
                     | Some Cond_ALL \<Rightarrow> (Inr (py_all is_success_list), st')
                     | None \<Rightarrow> (Inl (Exception ''Unsupported lint condition.''), st')))))"

text \<open>The file-level loop of \<^verbatim>\<open>run\<close>.\<close>

fun run_file_lints ::
  "lint list \<Rightarrow> string \<Rightarrow> json \<Rightarrow> path \<Rightarrow> LinterStatus \<Rightarrow> (error + unit) \<times> LinterStatus" where
  "run_file_lints [] source data pth st = (Inr (), st)"
| "run_file_lints (l # ls) source data pth st =
     (let v = lint_run l source data pth
      in (case add_entry l v None None False st of
            (Inl e, st') \<Rightarrow> (Inl e, st')
          | (Inr u, st') \<Rightarrow> run_file_lints ls source data pth st'))"

text \<open>The three nested cell-level loops of \<^verbatim>\<open>run\<close>, innermost first.\<close>

fun run_lints ::
  "lint list \<Rightarrow> json \<Rightarrow> path \<Rightarrow> LinterStatus \<Rightarrow> (error + unit) \<times> LinterStatus" where
  "run_lints [] data pth st = (Inr (), st)"
| "run_lints (l # ls) data pth st =
     (case run_lint_group l data pth st of
        (Inl e, st') \<Rightarrow> (Inl e, st')
      | (Inr ok, st') \<Rightarrow>
          (case add_entry l (PBool ok) None (Some (name l)) False st' of
             (Inl e, st'') \<Rightarrow> (Inl e, st'')
           | (Inr u, st'') \<Rightarrow> run_lints ls data pth st''))"

fun run_conds ::
  "lint_dict \<Rightarrow> scope \<Rightarrow> cond list \<Rightarrow> json \<Rightarrow> path \<Rightarrow> LinterStatus
     \<Rightarrow> (error + unit) \<times> LinterStatus" where
  "run_conds d s [] data pth st = (Inr (), st)"
| "run_conds d s (c # cs) data pth st =
     (case lookup_lints d s c of
        Inl e \<Rightarrow> (Inl e, st)
      | Inr lints \<Rightarrow>
          (case run_lints lints data pth st of
             (Inl e, st') \<Rightarrow> (Inl e, st')
           | (Inr u, st') \<Rightarrow> run_conds d s cs data pth st'))"

fun run_scopes ::
  "lint_dict \<Rightarrow> cond list \<Rightarrow> scope list \<Rightarrow> json \<Rightarrow> path \<Rightarrow> LinterStatus
     \<Rightarrow> (error + unit) \<times> LinterStatus" where
  "run_scopes d conds [] data pth st = (Inr (), st)"
| "run_scopes d conds (s # ss) data pth st =
     (case run_conds d s conds data pth st of
        (Inl e, st') \<Rightarrow> (Inl e, st')
      | (Inr u, st') \<Rightarrow> run_scopes d conds ss data pth st')"

text \<open>
  \<^verbatim>\<open>Linter.run\<close> returns \<^verbatim>\<open>False\<close> or the report; the first argument is
  \<^verbatim>\<open>self.verbose\<close>.
\<close>

datatype run_result = Failure | Report LinterStatus

definition run :: "world \<Rightarrow> bool \<Rightarrow> path \<Rightarrow> lint_dict \<Rightarrow> error + run_result" where
  "run w vb pth d =
     (case load_notebook w pth of
        Inl e \<Rightarrow> Inl e
      | Inr (data, source) \<Rightarrow>
          if \<not> json_truthy data then Inr Failure
          else
            (let st = LinterStatus_init pth vb
             in (case lookup_lints d FILE Cond_ANY of
                   Inl e \<Rightarrow> Inl e
                 | Inr file_lints \<Rightarrow>
                     (case run_file_lints file_lints source data pth st of
                        (Inl e, st') \<Rightarrow> Inl e
                      | (Inr u, st') \<Rightarrow>
                          (case run_scopes d (Cond_members w) [CELLS, CODE, TEXT] data pth st' of
                             (Inl e, st'') \<Rightarrow> Inl e
                           | (Inr u', st'') \<Rightarrow> Inr (Report st''))))))"

section \<open>Rendering the report\<close>

definition ESC :: char where
  "ESC = CHR 0x1B"

definition newline :: char where
  "newline = CHR 0x0A"

definition format_status :: "LintStatusEntry \<Rightarrow> string" where
  "format_status entry =
     (if is_success entry then ESC # ''[32mPass'' @ ESC # ''[00m''
      else if is_group_entry entry then ESC # ''[33mFail'' @ ESC # ''[00m''
      else ESC # ''[91mFail'' @ ESC # ''[00m'')"

text \<open>The dictionary \<^verbatim>\<open>groups\<close> of \<^verbatim>\<open>__str__\<close>, keyed by \<^verbatim>\<open>entry.group\<close>.\<close>

type_synonym groups = "string option \<rightharpoonup> LintStatusEntry list"

fun collect_groups :: "LintStatusEntry list \<Rightarrow> groups \<Rightarrow> groups" where
  "collect_groups [] groups = groups"
| "collect_groups (entry # rest) groups =
     (if is_group_entry entry then
        (case groups (group entry) of
           Some es \<Rightarrow> collect_groups rest (groups(group entry \<mapsto> es @ [entry]))
         | None \<Rightarrow> collect_groups rest (groups(group entry \<mapsto> [entry])))
      else collect_groups rest groups)"

definition root_line :: "LintStatusEntry \<Rightarrow> string" where
  "root_line entry =
     (let status = format_status entry;
          nm = style (lint entry) @ ''::'' @ entry_name entry;
          msg = (case message (lint entry) of
                   None \<Rightarrow> []
                 | Some m \<Rightarrow> if m \<noteq> [] then '' | '' @ m else [])
      in status @ '' | '' @ nm @ msg @ [newline])"

definition child_line :: "LintStatusEntry \<Rightarrow> string" where
  "child_line child = ''- '' @ format_status child @ '' | '' @ entry_name child @ [newline]"

fun render_children :: "LintStatusEntry list \<Rightarrow> string \<Rightarrow> string" where
  "render_children [] output = output"
| "render_children (child # rest) output = render_children rest (output @ child_line child)"

text \<open>
  What \<^verbatim>\<open>__str__\<close> appends after the line of a top-level entry: the body of
  \<^verbatim>\<open>if self.verbose and entry.group in groups\<close>.
\<close>

definition child_block :: "bool \<Rightarrow> groups \<Rightarrow> LintStatusEntry \<Rightarrow> string \<Rightarrow> string" where
  "child_block vb groups entry output =
     (case groups (group entry) of
        Some children \<Rightarrow>
          if vb then render_children children (output @ ''[All results]'' @ [newline]) @ [newline]
          else output
      | None \<Rightarrow> output)"

fun render_roots :: "bool \<Rightarrow> groups \<Rightarrow> LintStatusEntry list \<Rightarrow> string \<Rightarrow> string" where
  "render_roots vb groups [] output = output"
| "render_roots vb groups (entry # rest) output =
     render_roots vb groups rest (child_block vb groups entry (output @ root_line entry))"

definition LinterStatus_str :: "LinterStatus \<Rightarrow> string" where
  "LinterStatus_str st =
     (let groups = (if verbose st then collect_groups (status_list st) Map.empty else Map.empty);
          root_entries = filter (\<lambda>obj. \<not> is_group_entry obj) (status_list st)
      in render_roots (verbose st) groups root_entries [])"

section \<open>Vocabulary for the properties\<close>

text \<open>
  The cells a scope keeps, what a kept cell contributes, and the entries one rule
  leaves in the report, written as plain list functions. The lemmas below show that
  the engine computes exactly these.
\<close>

definition cell_type_of :: "json \<Rightarrow> json" where
  "cell_type_of cell = (case py_get cell ''cell_type'' of Inr ct \<Rightarrow> ct | Inl e \<Rightarrow> JNull)"

definition matches_scope :: "scope \<Rightarrow> json \<Rightarrow> bool" where
  "matches_scope s cell =
     (case s of
        CELLS \<Rightarrow> True
      | CODE \<Rightarrow> cell_type_of cell = JStr ''code''
      | TEXT \<Rightarrow> cell_type_of cell = JStr ''markdown''
      | FILE \<Rightarrow> True)"

definition cell_source :: "json \<Rightarrow> string" where
  "cell_source cell =
     (case py_getitem cell ''source'' of
        Inl e \<Rightarrow> []
      | Inr src \<Rightarrow> (case py_join src of Inl e \<Rightarrow> [] | Inr s \<Rightarrow> s))"

definition cell_verdict :: "lint \<Rightarrow> path \<Rightarrow> json \<Rightarrow> pyval" where
  "cell_verdict l pth cell = lint_run l (cell_source cell) cell pth"

definition selected :: "scope \<Rightarrow> (nat \<times> json) list \<Rightarrow> (nat \<times> json) list" where
  "selected s ics = filter (\<lambda>ic. matches_scope s (snd ic)) ics"

definition member_entry :: "lint \<Rightarrow> path \<Rightarrow> nat \<times> json \<Rightarrow> LintStatusEntry" where
  "member_entry l pth ic =
     \<lparr>lint = l, is_success = truthy (cell_verdict l pth (snd ic)),
      entry_name = name l @ ''__cell_'' @ str_of_nat (fst ic),
      group = Some (name l), is_group_entry = True\<rparr>"

definition cells_of :: "json \<Rightarrow> json list" where
  "cells_of data =
     (case py_get data ''cells'' of
        Inl e \<Rightarrow> []
      | Inr cells \<Rightarrow> (case py_iter cells of Inl e \<Rightarrow> [] | Inr cs \<Rightarrow> cs))"

definition selected_cells :: "lint \<Rightarrow> json \<Rightarrow> (nat \<times> json) list" where
  "selected_cells l data = selected (scope l) (enumerate_list (cells_of data))"

definition cell_verdicts :: "lint \<Rightarrow> json \<Rightarrow> path \<Rightarrow> pyval list" where
  "cell_verdicts l data pth = map (\<lambda>ic. cell_verdict l pth (snd ic)) (selected_cells l data)"

definition group_verdict :: "lint \<Rightarrow> json \<Rightarrow> path \<Rightarrow> bool" where
  "group_verdict l data pth =
     (case cond l of
        Some Cond_ANY \<Rightarrow> py_any (cell_verdicts l data pth)
      | Some Cond_ALL \<Rightarrow> py_all (cell_verdicts l data pth)
      | None \<Rightarrow> False)"

definition member_entries :: "lint \<Rightarrow> json \<Rightarrow> path \<Rightarrow> LintStatusEntry list" where
  "member_entries l data pth = map (member_entry l pth) (selected_cells l data)"

definition aggregate_entry :: "lint \<Rightarrow> json \<Rightarrow> path \<Rightarrow> LintStatusEntry" where
  "aggregate_entry l data pth =
     \<lparr>lint = l, is_success = group_verdict l data pth, entry_name = name l,
      group = Some (name l), is_group_entry = False\<rparr>"

definition rule_block :: "lint \<Rightarrow> json \<Rightarrow> path \<Rightarrow> LintStatusEntry list" where
  "rule_block l data pth = member_entries l data pth @ [aggregate_entry l data pth]"

definition file_entry :: "string \<Rightarrow> json \<Rightarrow> path \<Rightarrow> lint \<Rightarrow> LintStatusEntry" where
  "file_entry source data pth l =
     \<lparr>lint = l, is_success = truthy (lint_run l source data pth), entry_name = name l,
      group = None, is_group_entry = False\<rparr>"

definition lints_at :: "lint_dict \<Rightarrow> scope \<Rightarrow> cond \<Rightarrow> lint list" where
  "lints_at d s c = (case lookup_lints d s c of Inl e \<Rightarrow> [] | Inr ls \<Rightarrow> ls)"

definition dispatched :: "lint_dict \<Rightarrow> cond list \<Rightarrow> lint list" where
  "dispatched d conds = concat (map (\<lambda>s. concat (map (lints_at d s) conds)) [CELLS, CODE, TEXT])"

definition rule_ok :: "lint \<Rightarrow> json \<Rightarrow> path \<Rightarrow> bool" where
  "rule_ok l data pth = (list_all isinstance_bool (cell_verdicts l data pth) \<and> cond l \<noteq> None)"

text \<open>
  The entries of one rule in a report: its member entries, and its aggregate entry
  (not a member, and carrying the rule's name as group key).
\<close>

definition member_of :: "lint \<Rightarrow> LintStatusEntry \<Rightarrow> bool" where
  "member_of l e = (lint e = l \<and> is_group_entry e)"

definition aggregate_of :: "lint \<Rightarrow> LintStatusEntry \<Rightarrow> bool" where
  "aggregate_of l e = (lint e = l \<and> \<not> is_group_entry e \<and> group e = Some (name l))"

text \<open>
  A parsed document is well formed when it is a mapping with a list under the key
  \<^verbatim>\<open>cells\<close>; a document is malformed when it does not parse or is not well formed.
\<close>

definition has_cells_list :: "json \<Rightarrow> bool" where
  "has_cells_list data =
     (case data of
        JObj kvs \<Rightarrow> (case map_of kvs ''cells'' of Some (JList xs) \<Rightarrow> True | _ \<Rightarrow> False)
      | _ \<Rightarrow> False)"

definition malformed :: "json option \<Rightarrow> bool" where
  "malformed parsed = (case parsed of None \<Rightarrow> True | Some data \<Rightarrow> \<not> has_cells_list data)"

definition is_mapping :: "json \<Rightarrow> bool" where
  "is_mapping data = (case data of JObj kvs \<Rightarrow> True | _ \<Rightarrow> False)"

text \<open>The error \<^verbatim>\<open>add_entry\<close> raises on a verdict that is not a Boolean.\<close>

definition not_boolean_error :: "pyval \<Rightarrow> error" where
  "not_boolean_error v = TypeError (''Lint status must return Boolean, got: '' @ py_format v)"

text \<open>
  What the rendered report looks like, character by character: the coloured status of
  an entry (green \<^verbatim>\<open>Pass\<close>, yellow \<^verbatim>\<open>Fail\<close> for a member, light red \<^verbatim>\<open>Fail\<close>
  otherwise), the line of a top-level entry, the line of a member entry, and a block
  of member lines under its heading.
\<close>

definition pass_text :: string where
  "pass_text = [CHR 0x1B] @ ''[32mPass'' @ [CHR 0x1B] @ ''[00m''"

definition member_fail_text :: string where
  "member_fail_text = [CHR 0x1B] @ ''[33mFail'' @ [CHR 0x1B] @ ''[00m''"

definition root_fail_text :: string where
  "root_fail_text = [CHR 0x1B] @ ''[91mFail'' @ [CHR 0x1B] @ ''[00m''"

definition status_text :: "LintStatusEntry \<Rightarrow> string" where
  "status_text e =
     (if is_success e then pass_text
      else if is_group_entry e then member_fail_text
      else root_fail_text)"

definition root_line_text :: "LintStatusEntry \<Rightarrow> string" where
  "root_line_text r =
     status_text r @ '' | '' @ style (lint r) @ ''::'' @ entry_name r @
     (case message (lint r) of None \<Rightarrow> [] | Some m \<Rightarrow> if m = [] then [] else '' | '' @ m) @
     [CHR 0x0A]"

definition member_line_text :: "LintStatusEntry \<Rightarrow> string" where
  "member_line_text c = ''- '' @ status_text c @ '' | '' @ entry_name c @ [CHR 0x0A]"

definition children_text :: "LintStatusEntry list \<Rightarrow> string" where
  "children_text children =
     (if children = [] then []
      else ''[All results]'' @ [CHR 0x0A] @ concat (map member_line_text children) @ [CHR 0x0A])"

text \<open>
  Modelled from the spec: the registration of rules (\<^verbatim>\<open>decorator.py\<close>, which builds
  the registry, is not among the sources). The registry maps each key (scope,
  condition) to the ordered sequence of the rules registered under it, empty when
  none is; \<open>register\<close> adds a rule at the end of the sequence of its own key. A rule
  without a recognised condition has no key and is not registered.
\<close>

definition empty_registry :: lint_dict where
  "empty_registry = (\<lambda>s. Some (\<lambda>c. Some []))"

definition register :: "lint \<Rightarrow> lint_dict \<Rightarrow> lint_dict" where
  "register l d =
     (case cond l of
        None \<Rightarrow> d
      | Some c \<Rightarrow>
          (case d (scope l) of
             None \<Rightarrow> d(scope l \<mapsto> [c \<mapsto> [l]])
           | Some by_cond \<Rightarrow>
               (case by_cond c of
                  None \<Rightarrow> d(scope l \<mapsto> by_cond(c \<mapsto> [l]))
                | Some ls \<Rightarrow> d(scope l \<mapsto> by_cond(c \<mapsto> ls @ [l])))))"

fun register_all :: "lint list \<Rightarrow> lint_dict \<Rightarrow> lint_dict" where
  "register_all [] d = d"
| "register_all (l # ls) d = register_all ls (register l d)"

section \<open>Sample notebooks and registries\<close>

text \<open>
  A notebook of three cells (code, markdown, code) and one rule each of file scope,
  code scope and text scope, used to run the engine on concrete input. A sample world
  holds one file, \<^verbatim>\<open>nb.ipynb\<close>, with a given text, and parses that text to a given
  value.
\<close>

definition ex_cell :: "string \<Rightarrow> string list \<Rightarrow> json" where
  "ex_cell kind lines = JObj [(''cell_type'', JStr kind), (''source'', JList (map JStr lines))]"

definition ex_doc :: json where
  "ex_doc = JObj [(''cells'', JList [ex_cell ''code'' [''x=1''], ex_cell ''markdown'' [''# '', ''Title''], ex_cell ''code'' []])]"

definition ex_file_lint :: lint where
  "ex_file_lint = \<lparr>name = ''not_translation'', message = None, scope = FILE, cond = Some Cond_ANY,
     style = ''tensorflow'', lint_run = (\<lambda>source data pth. PBool True)\<rparr>"

definition ex_code_lint :: lint where
  "ex_code_lint = \<lparr>name = ''has_code'', message = Some ''Code is required'', scope = CODE, cond = Some Cond_ANY,
     style = ''tensorflow'', lint_run = (\<lambda>source cell pth. PBool (source \<noteq> []))\<rparr>"

definition ex_text_lint :: lint where
  "ex_text_lint = \<lparr>name = ''heading'', message = None, scope = TEXT, cond = Some Cond_ALL,
     style = ''tensorflow'', lint_run = (\<lambda>source cell pth. PBool (take 1 source = ''#''))\<rparr>"

definition ex_dict :: lint_dict where
  "ex_dict = [FILE \<mapsto> [Cond_ANY \<mapsto> [ex_file_lint], Cond_ALL \<mapsto> []],
              CELLS \<mapsto> [Cond_ANY \<mapsto> [], Cond_ALL \<mapsto> []],
              CODE \<mapsto> [Cond_ANY \<mapsto> [ex_code_lint], Cond_ALL \<mapsto> []],
              TEXT \<mapsto> [Cond_ANY \<mapsto> [], Cond_ALL \<mapsto> [ex_text_lint]]]"

definition ex_source :: string where
  \<open>ex_source = ''{"cells": [{"cell_type": "code", "source": ["x=1"]}, {"cell_type": "markdown", "source": ["# ", "Title"]}, {"cell_type": "code", "source": []}]}''\<close>

definition ex_world :: "string \<Rightarrow> json option \<Rightarrow> world" where
  "ex_world raw parsed =
     \<lparr>read_text = [''nb.ipynb'' \<mapsto> raw],
      json_loads = (\<lambda>source. if source = raw then parsed else None),
      Cond_members = [Cond_ALL, Cond_ANY]\<rparr>"

definition mk_entry :: "lint \<Rightarrow> bool \<Rightarrow> string \<Rightarrow> string option \<Rightarrow> bool \<Rightarrow> LintStatusEntry" where
  "mk_entry l ok nm grp m = \<lparr>lint = l, is_success = ok, entry_name = nm, group = grp, is_group_entry = m\<rparr>"

definition ex_report :: LinterStatus where
  "ex_report = \<lparr>status_path = ''nb.ipynb'', verbose = True, status_list =
     [mk_entry ex_file_lint True ''not_translation'' None False,
      mk_entry ex_code_lint True ''has_code__cell_0'' (Some ''has_code'') True,
      mk_entry ex_code_lint False ''has_code__cell_2'' (Some ''has_code'') True,
      mk_entry ex_code_lint True ''has_code'' (Some ''has_code'') False,
      mk_entry ex_text_lint True ''heading__cell_1'' (Some ''heading'') True,
      mk_entry ex_text_lint True ''heading'' (Some ''heading'') False]\<rparr>"

text \<open>A document that is a mapping without cells.\<close>

definition ex_source_metadata :: string where
  \<open>ex_source_metadata = ''{"metadata": {}}''\<close>

definition ex_doc_metadata :: json where
  "ex_doc_metadata = JObj [(''metadata'', JObj [])]"

text \<open>A notebook with no code cell, and a registry holding one always-true code rule.\<close>

definition ex_source_text :: string where
  \<open>ex_source_text = ''{"cells": [{"cell_type": "markdown", "source": ["# Title"]}]}''\<close>

definition ex_doc_text :: json where
  "ex_doc_text = JObj [(''cells'', JList [ex_cell ''markdown'' [''# Title'']])]"

definition ex_true_lint :: lint where
  "ex_true_lint = \<lparr>name = ''license_check'', message = Some ''Apache license is required'',
     scope = CODE, cond = Some Cond_ANY, style = ''tensorflow'',
     lint_run = (\<lambda>source cell pth. PBool True)\<rparr>"

definition ex_dict_code :: lint_dict where
  "ex_dict_code = [FILE \<mapsto> [Cond_ANY \<mapsto> [], Cond_ALL \<mapsto> []],
                   CELLS \<mapsto> [Cond_ANY \<mapsto> [], Cond_ALL \<mapsto> []],
                   CODE \<mapsto> [Cond_ANY \<mapsto> [ex_true_lint], Cond_ALL \<mapsto> []],
                   TEXT \<mapsto> [Cond_ANY \<mapsto> [], Cond_ALL \<mapsto> []]]"

definition ex_report_code :: LinterStatus where
  "ex_report_code = \<lparr>status_path = ''nb.ipynb'', verbose = False, status_list =
     [mk_entry ex_true_lint True ''license_check__cell_0'' (Some ''license_check'') True,
      mk_entry ex_true_lint True ''license_check__cell_2'' (Some ''license_check'') True,
      mk_entry ex_true_lint True ''license_check'' (Some ''license_check'') False]\<rparr>"

definition ex_report_no_code :: LinterStatus where
  "ex_report_no_code = \<lparr>status_path = ''nb.ipynb'', verbose = False, status_list =
     [mk_entry ex_true_lint False ''license_check'' (Some ''license_check'') False]\<rparr>"

text \<open>A registry whose only rule sits under \<^verbatim>\<open>FILE\<close> and \<^verbatim>\<open>ALL\<close>.\<close>

definition ex_file_all_lint :: lint where
  "ex_file_all_lint = \<lparr>name = ''not_translation'', message = None, scope = FILE,
     cond = Some Cond_ALL, style = ''tensorflow'',
     lint_run = (\<lambda>source data pth. PBool True)\<rparr>"

definition ex_dict_file_all :: lint_dict where
  "ex_dict_file_all = [FILE \<mapsto> [Cond_ANY \<mapsto> [], Cond_ALL \<mapsto> [ex_file_all_lint]],
                       CELLS \<mapsto> [Cond_ANY \<mapsto> [], Cond_ALL \<mapsto> []],
                       CODE \<mapsto> [Cond_ANY \<mapsto> [], Cond_ALL \<mapsto> []],
                       TEXT \<mapsto> [Cond_ANY \<mapsto> [], Cond_ALL \<mapsto> []]]"

text \<open>A file-level rule whose callback returns \<^verbatim>\<open>None\<close>, under a chosen name.\<close>

definition ex_bad_lint :: "string \<Rightarrow> lint" where
  "ex_bad_lint nm = \<lparr>name = nm, message = None, scope = FILE, cond = Some Cond_ANY,
     style = ''tensorflow'', lint_run = (\<lambda>source data pth. PNone)\<rparr>"

definition ex_dict_bad :: "string \<Rightarrow> lint_dict" where
  "ex_dict_bad nm = [FILE \<mapsto> [Cond_ANY \<mapsto> [ex_bad_lint nm], Cond_ALL \<mapsto> []],
                     CELLS \<mapsto> [Cond_ANY \<mapsto> [], Cond_ALL \<mapsto> []],
                     CODE \<mapsto> [Cond_ANY \<mapsto> [], Cond_ALL \<mapsto> []],
                     TEXT \<mapsto> [Cond_ANY \<mapsto> [], Cond_ALL \<mapsto> []]]"

text \<open>Two rules with the same name, one on code cells and one on markdown cells.\<close>

definition ex_dup_code_lint :: lint where
  "ex_dup_code_lint = \<lparr>name = ''check'', message = None, scope = CODE, cond = Some Cond_ANY,
     style = ''tensorflow'', lint_run = (\<lambda>source cell pth. PBool (source \<noteq> []))\<rparr>"

definition ex_dup_text_lint :: lint where
  "ex_dup_text_lint = \<lparr>name = ''check'', message = None, scope = TEXT, cond = Some Cond_ANY,
     style = ''tensorflow'', lint_run = (\<lambda>source cell pth. PBool True)\<rparr>"

definition ex_dict_dup :: lint_dict where
  "ex_dict_dup = [FILE \<mapsto> [Cond_ANY \<mapsto> [], Cond_ALL \<mapsto> []],
                  CELLS \<mapsto> [Cond_ANY \<mapsto> [], Cond_ALL \<mapsto> []],
                  CODE \<mapsto> [Cond_ANY \<mapsto> [ex_dup_code_lint], Cond_ALL \<mapsto> []],
                  TEXT \<mapsto> [Cond_ANY \<mapsto> [ex_dup_text_lint], Cond_ALL \<mapsto> []]]"

definition ex_report_dup :: LinterStatus where
  "ex_report_dup = \<lparr>status_path = ''nb.ipynb'', verbose = True, status_list =
     [mk_entry ex_dup_code_lint True ''check__cell_0'' (Some ''check'') True,
      mk_entry ex_dup_code_lint False ''check__cell_2'' (Some ''check'') True,
      mk_entry ex_dup_code_lint True ''check'' (Some ''check'') False,
      mk_entry ex_dup_text_lint True ''check__cell_1'' (Some ''check'') True,
      mk_entry ex_dup_text_lint True ''check'' (Some ''check'') False]\<rparr>"

section \<open>The engine computes the vocabulary\<close>

lemma add_entry_bool:
  "add_entry l (PBool b) nm grp m st =
     (Inr (), st\<lparr>status_list := status_list st @
        [\<lparr>lint = l, is_success = b,
          entry_name = (case nm of None \<Rightarrow> name l | Some n \<Rightarrow> if n \<noteq> [] then n else name l),
          group = grp, is_group_entry = m\<rparr>]\<rparr>)"
  by (simp add: add_entry_def)

lemma add_entry_nonbool:
  "\<not> isinstance_bool v \<Longrightarrow>
   add_entry l v nm grp m st =
     (Inl (TypeError (''Lint status must return Boolean, got: '' @ py_format v)), st)"
  by (cases v) (simp_all add: add_entry_def)

lemma add_entry_Inr:
  "add_entry l v nm grp m st = (Inr u, st') \<Longrightarrow> \<exists>b. v = PBool b"
  by (cases v) (simp_all add: add_entry_def)

lemma lint_cells_Inr:
  "lint_cells l pth ics acc st = (Inr acc', st') \<Longrightarrow>
     acc' = acc @ map (\<lambda>ic. cell_verdict l pth (snd ic)) (selected (scope l) ics) \<and>
     st' = st\<lparr>status_list := status_list st @ map (member_entry l pth) (selected (scope l) ics)\<rparr> \<and>
     list_all isinstance_bool (map (\<lambda>ic. cell_verdict l pth (snd ic)) (selected (scope l) ics))"
proof (induction ics arbitrary: acc st)
  case Nil
  then show ?case by (simp add: selected_def)
next
  case (Cons ic ics)
  obtain i c where ic: "ic = (i, c)" by (cases ic)
  show ?case
  proof (cases "py_get c ''cell_type''")
    case (Inl e)
    with Cons.prems ic show ?thesis by simp
  next
    case (Inr ct)
    have ct: "cell_type_of c = ct" using Inr by (simp add: cell_type_of_def)
    show ?thesis
    proof (cases "matches_scope (scope l) c")
      case False
      then have skip: "(scope l = TEXT \<and> ct \<noteq> JStr ''markdown'') \<or> (scope l = CODE \<and> ct \<noteq> JStr ''code'')"
        using ct by (cases "scope l") (simp_all add: matches_scope_def)
      then have "lint_cells l pth (ic # ics) acc st = lint_cells l pth ics acc st"
        using Inr ic by auto
      with Cons.prems have "lint_cells l pth ics acc st = (Inr acc', st')" by simp
      from Cons.IH[OF this] False ic show ?thesis by (simp add: selected_def)
    next
      case True
      then have noskip: "\<not> (scope l = TEXT \<and> ct \<noteq> JStr ''markdown'')" "\<not> (scope l = CODE \<and> ct \<noteq> JStr ''code'')"
        using ct by (cases "scope l"; simp add: matches_scope_def)+
      from Cons.prems ic Inr noskip obtain src where src: "py_getitem c ''source'' = Inr src"
        by (cases "py_getitem c ''source''") auto
      from Cons.prems ic Inr noskip src obtain source where source: "py_join src = Inr source"
        by (cases "py_join src") auto
      have cs: "cell_source c = source" using src source by (simp add: cell_source_def)
      define v where "v = lint_run l source c pth"
      have cv: "cell_verdict l pth c = v" using cs by (simp add: cell_verdict_def v_def)
      define nm where "nm = name l @ ''__cell_'' @ str_of_nat i"
      have step: "lint_cells l pth (ic # ics) acc st =
          (case add_entry l v (Some nm) (Some (name l)) True st of
             (Inl e, st') \<Rightarrow> (Inl e, st')
           | (Inr u, st') \<Rightarrow> lint_cells l pth ics (acc @ [v]) st')"
        unfolding v_def nm_def using ic Inr noskip src source by (auto simp: Let_def)
      obtain b where b: "v = PBool b"
        using Cons.prems unfolding step
        by (cases v) (auto simp: add_entry_def)
      have nm_ne: "nm \<noteq> []" by (simp add: nm_def)
      define st1 where "st1 = st\<lparr>status_list := status_list st @ [member_entry l pth ic]\<rparr>"
      have ae: "add_entry l v (Some nm) (Some (name l)) True st = (Inr (), st1)"
        using b nm_ne cv ic by (simp add: add_entry_bool st1_def member_entry_def nm_def)
      have "lint_cells l pth ics (acc @ [v]) st1 = (Inr acc', st')"
        using Cons.prems unfolding step ae by simp
      from Cons.IH[OF this] True ic cv b show ?thesis
        by (simp add: selected_def st1_def)
    qed
  qed
qed


lemma run_lint_group_Inr:
  assumes "run_lint_group l data pth st = (Inr ok, st')"
  shows "ok = group_verdict l data pth"
    and "st' = st\<lparr>status_list := status_list st @ member_entries l data pth\<rparr>"
    and "rule_ok l data pth"
proof -
  from assms obtain cells where cells: "py_get data ''cells'' = Inr cells"
    by (cases "py_get data ''cells''") (auto simp: run_lint_group_def)
  from assms cells obtain cs where cs: "py_iter cells = Inr cs"
    by (cases "py_iter cells") (auto simp: run_lint_group_def)
  have co: "cells_of data = cs" using cells cs by (simp add: cells_of_def)
  from assms cells cs obtain vs st1 where
    lc: "lint_cells l pth (enumerate_list cs) [] st = (Inr vs, st1)"
    by (cases "lint_cells l pth (enumerate_list cs) [] st")
       (auto simp: run_lint_group_def split: sum.splits)
  from lint_cells_Inr[OF lc] have
    vs: "vs = cell_verdicts l data pth"
    and st1: "st1 = st\<lparr>status_list := status_list st @ member_entries l data pth\<rparr>"
    and bools: "list_all isinstance_bool (cell_verdicts l data pth)"
    by (simp_all add: cell_verdicts_def selected_cells_def member_entries_def co)
  from assms cells cs lc have
    fin: "(case cond l of
            Some Cond_ANY \<Rightarrow> (Inr (py_any vs), st1)
          | Some Cond_ALL \<Rightarrow> (Inr (py_all vs), st1)
          | None \<Rightarrow> (Inl (Exception ''Unsupported lint condition.''), st1)) = (Inr ok, st')"
    by (simp add: run_lint_group_def)
  then have c: "cond l \<noteq> None" by (cases "cond l") auto
  from fin c show "ok = group_verdict l data pth"
    by (auto simp: group_verdict_def vs split: option.splits cond.splits)
  from fin c show "st' = st\<lparr>status_list := status_list st @ member_entries l data pth\<rparr>"
    by (auto simp: st1 split: option.splits cond.splits)
  from bools c show "rule_ok l data pth" by (simp add: rule_ok_def)
qed

lemma run_lints_Inr:
  "run_lints ls data pth st = (Inr u, st') \<Longrightarrow>
     st' = st\<lparr>status_list := status_list st @ concat (map (\<lambda>l. rule_block l data pth) ls)\<rparr> \<and>
     (\<forall>l\<in>set ls. rule_ok l data pth)"
proof (induction ls arbitrary: st)
  case Nil
  then show ?case by simp
next
  case (Cons l ls)
  from Cons.prems obtain ok st1 where
    g: "run_lint_group l data pth st = (Inr ok, st1)"
    by (cases "run_lint_group l data pth st") (auto split: sum.splits)
  note r = run_lint_group_Inr[OF g]
  define st2 where "st2 = st\<lparr>status_list := status_list st @ rule_block l data pth\<rparr>"
  have ae: "add_entry l (PBool ok) None (Some (name l)) False st1 = (Inr (), st2)"
    by (simp add: add_entry_bool r(1) r(2) st2_def rule_block_def aggregate_entry_def)
  from Cons.prems g ae have "run_lints ls data pth st2 = (Inr u, st')" by simp
  from Cons.IH[OF this] r(3) show ?case by (simp add: st2_def)
qed

lemma run_conds_Inr:
  "run_conds d s cs data pth st = (Inr u, st') \<Longrightarrow>
     st' = st\<lparr>status_list := status_list st @
             concat (map (\<lambda>l. rule_block l data pth) (concat (map (lints_at d s) cs)))\<rparr> \<and>
     (\<forall>l\<in>set (concat (map (lints_at d s) cs)). rule_ok l data pth)"
proof (induction cs arbitrary: st)
  case Nil
  then show ?case by simp
next
  case (Cons c cs)
  from Cons.prems obtain lints where lk: "lookup_lints d s c = Inr lints"
    by (cases "lookup_lints d s c") auto
  have la: "lints_at d s c = lints" using lk by (simp add: lints_at_def)
  from Cons.prems lk obtain st1 where rl: "run_lints lints data pth st = (Inr (), st1)"
    by (cases "run_lints lints data pth st") (auto split: sum.splits)
  from Cons.prems lk rl have "run_conds d s cs data pth st1 = (Inr u, st')" by simp
  from Cons.IH[OF this] run_lints_Inr[OF rl] la show ?case by auto
qed

lemma run_scopes_Inr:
  "run_scopes d conds ss data pth st = (Inr u, st') \<Longrightarrow>
     st' = st\<lparr>status_list := status_list st @
             concat (map (\<lambda>l. rule_block l data pth)
               (concat (map (\<lambda>s. concat (map (lints_at d s) conds)) ss)))\<rparr> \<and>
     (\<forall>l\<in>set (concat (map (\<lambda>s. concat (map (lints_at d s) conds)) ss)). rule_ok l data pth)"
proof (induction ss arbitrary: st)
  case Nil
  then show ?case by simp
next
  case (Cons s ss)
  from Cons.prems obtain st1 where rc: "run_conds d s conds data pth st = (Inr (), st1)"
    by (cases "run_conds d s conds data pth st") (auto split: sum.splits)
  from Cons.prems rc have "run_scopes d conds ss data pth st1 = (Inr u, st')" by simp
  from Cons.IH[OF this] run_conds_Inr[OF rc] show ?case by auto
qed

lemma run_file_lints_Inr:
  "run_file_lints ls source data pth st = (Inr u, st') \<Longrightarrow>
     st' = st\<lparr>status_list := status_list st @ map (file_entry source data pth) ls\<rparr> \<and>
     (\<forall>l\<in>set ls. isinstance_bool (lint_run l source data pth))"
proof (induction ls arbitrary: st)
  case Nil
  then show ?case by simp
next
  case (Cons l ls)
  from Cons.prems obtain st1 where
    ae: "add_entry l (lint_run l source data pth) None None False st = (Inr (), st1)"
    by (cases "add_entry l (lint_run l source data pth) None None False st")
       (auto simp: Let_def split: sum.splits)
  from add_entry_Inr[OF ae] obtain b where b: "lint_run l source data pth = PBool b" by blast
  from ae b have st1: "st1 = st\<lparr>status_list := status_list st @ [file_entry source data pth l]\<rparr>"
    by (simp add: add_entry_bool file_entry_def)
  from Cons.prems ae have "run_file_lints ls source data pth st1 = (Inr u, st')"
    by (simp add: Let_def)
  from Cons.IH[OF this] b show ?case by (simp add: st1)
qed

lemma run_Report:
  assumes "run w vb pth d = Inr (Report st)"
  obtains data source where
    "load_notebook w pth = Inr (data, source)"
    "json_truthy data"
    "st = \<lparr>status_path = pth, verbose = vb,
           status_list = map (file_entry source data pth) (lints_at d FILE Cond_ANY) @
             concat (map (\<lambda>l. rule_block l data pth) (dispatched d (Cond_members w)))\<rparr>"
    "\<forall>l\<in>set (lints_at d FILE Cond_ANY). isinstance_bool (lint_run l source data pth)"
    "\<forall>l\<in>set (dispatched d (Cond_members w)). rule_ok l data pth"
proof -
  from assms obtain data source where ld: "load_notebook w pth = Inr (data, source)"
    by (cases "load_notebook w pth") (auto simp: run_def)
  from assms ld have tr: "json_truthy data"
    by (auto simp: run_def split: if_splits)
  from assms ld tr obtain fl where fl: "lookup_lints d FILE Cond_ANY = Inr fl"
    by (cases "lookup_lints d FILE Cond_ANY") (auto simp: run_def)
  have fla: "lints_at d FILE Cond_ANY = fl" using fl by (simp add: lints_at_def)
  from assms ld tr fl obtain st1 where
    rf: "run_file_lints fl source data pth (LinterStatus_init pth vb) = (Inr (), st1)"
    by (cases "run_file_lints fl source data pth (LinterStatus_init pth vb)")
       (auto simp: run_def Let_def split: sum.splits)
  from assms ld tr fl rf have
    rs: "run_scopes d (Cond_members w) [CELLS, CODE, TEXT] data pth st1 = (Inr (), st)"
    by (cases "run_scopes d (Cond_members w) [CELLS, CODE, TEXT] data pth st1")
       (auto simp: run_def Let_def split: sum.splits)
  note a = run_file_lints_Inr[OF rf] and b = run_scopes_Inr[OF rs]
  show thesis
  proof (rule that[OF ld tr])
    show "st = \<lparr>status_path = pth, verbose = vb,
           status_list = map (file_entry source data pth) (lints_at d FILE Cond_ANY) @
             concat (map (\<lambda>l. rule_block l data pth) (dispatched d (Cond_members w)))\<rparr>"
      using a b by (simp add: fla dispatched_def LinterStatus_init_def)
    show "\<forall>l\<in>set (lints_at d FILE Cond_ANY). isinstance_bool (lint_run l source data pth)"
      using a by (simp add: fla)
    show "\<forall>l\<in>set (dispatched d (Cond_members w)). rule_ok l data pth"
      using b unfolding dispatched_def by blast
  qed
qed

subsection \<open>The sample run\<close>

lemma str_of_nat_small: "str_of_nat 0 = ''0''" "str_of_nat (Suc 0) = ''1''" "str_of_nat (Suc (Suc 0)) = ''2''"
  by (simp_all add: str_of_nat.simps digit_char_def)

lemma ex_lint_fields:
  "name ex_file_lint = ''not_translation''" "scope ex_file_lint = FILE" "cond ex_file_lint = Some Cond_ANY"
  "lint_run ex_file_lint = (\<lambda>source data pth. PBool True)"
  "name ex_code_lint = ''has_code''" "scope ex_code_lint = CODE" "cond ex_code_lint = Some Cond_ANY"
  "lint_run ex_code_lint = (\<lambda>source cell pth. PBool (source \<noteq> []))"
  "name ex_text_lint = ''heading''" "scope ex_text_lint = TEXT" "cond ex_text_lint = Some Cond_ALL"
  "lint_run ex_text_lint = (\<lambda>source cell pth. PBool (take 1 source = ''#''))"
  by (simp_all add: ex_file_lint_def ex_code_lint_def ex_text_lint_def)

lemma ex_run: "run (ex_world ex_source (Some ex_doc)) True ''nb.ipynb'' ex_dict = Inr (Report ex_report)"
  by (simp add: run_def load_notebook_def ex_world_def ex_doc_def ex_cell_def ex_dict_def
      lookup_lints_def LinterStatus_init_def add_entry_def run_lint_group_def enumerate_list_def
      py_any_def py_all_def ex_report_def mk_entry_def str_of_nat_small ex_lint_fields Let_def)

section \<open>Overall success\<close>

lemma is_success_loop_iff:
  "is_success_loop es = (\<forall>e\<in>set es. is_group_entry e \<or> is_success e)"
  by (induction es) auto

lemma is_success_loop_filter:
  "is_success_loop es = is_success_loop (filter (\<lambda>e. \<not> is_group_entry e) es)"
  by (induction es) auto

text \<open>
  C1. Whenever \<open>run\<close> produces a report, the report's overall success is false
  exactly when some entry that is not a group member failed. Member entries do not
  count: any other entry list with the same non-member entries, whatever its member
  entries and their verdicts, has the same overall success.
\<close>

theorem overall_success_iff_roots:
  assumes "run w vb pth d = Inr (Report st)"
  shows "((\<not> LinterStatus_is_success st) =
           (\<exists>e\<in>set (status_list st). \<not> is_group_entry e \<and> \<not> is_success e)) \<and>
         (\<forall>es. filter (\<lambda>e. \<not> is_group_entry e) es =
                 filter (\<lambda>e. \<not> is_group_entry e) (status_list st) \<longrightarrow>
               LinterStatus_is_success (st\<lparr>status_list := es\<rparr>) = LinterStatus_is_success st)"
proof
  show "(\<not> LinterStatus_is_success st) =
          (\<exists>e\<in>set (status_list st). \<not> is_group_entry e \<and> \<not> is_success e)"
    by (auto simp: LinterStatus_is_success_def is_success_loop_iff)
next
  show "\<forall>es. filter (\<lambda>e. \<not> is_group_entry e) es =
              filter (\<lambda>e. \<not> is_group_entry e) (status_list st) \<longrightarrow>
            LinterStatus_is_success (st\<lparr>status_list := es\<rparr>) = LinterStatus_is_success st"
  proof (intro allI impI)
    fix es
    assume eq: "filter (\<lambda>e. \<not> is_group_entry e) es =
                filter (\<lambda>e. \<not> is_group_entry e) (status_list st)"
    have "is_success_loop es = is_success_loop (filter (\<lambda>e. \<not> is_group_entry e) es)"
      by (rule is_success_loop_filter)
    also have "\<dots> = is_success_loop (filter (\<lambda>e. \<not> is_group_entry e) (status_list st))"
      by (simp only: eq)
    also have "\<dots> = is_success_loop (status_list st)"
      by (rule is_success_loop_filter [symmetric])
    finally show "LinterStatus_is_success (st\<lparr>status_list := es\<rparr>) = LinterStatus_is_success st"
      by (simp add: LinterStatus_is_success_def)
  qed
qed

theorem overall_success_iff_roots_witness:
  "run (ex_world ex_source (Some ex_doc)) True ''nb.ipynb'' ex_dict = Inr (Report ex_report) \<and>
   (\<exists>e\<in>set (status_list ex_report). is_group_entry e \<and> \<not> is_success e) \<and>
   \<not> (\<exists>e\<in>set (status_list ex_report). \<not> is_group_entry e \<and> \<not> is_success e) \<and>
   LinterStatus_is_success ex_report"
proof -
  have no_root: "\<not> (\<exists>e\<in>set (status_list ex_report). \<not> is_group_entry e \<and> \<not> is_success e)"
    by (simp add: ex_report_def mk_entry_def)
  have member: "\<exists>e\<in>set (status_list ex_report). is_group_entry e \<and> \<not> is_success e"
    by (simp add: ex_report_def mk_entry_def)
  from overall_success_iff_roots [OF ex_run] no_root
  have "LinterStatus_is_success ex_report" by blast
  with ex_run no_root member show ?thesis by blast
qed

section \<open>Loading a document\<close>

lemma load_notebook_parse_failure:
  "read_text w pth = Some source \<Longrightarrow> json_loads w source = None \<Longrightarrow>
   load_notebook w pth = Inr (JNull, source)"
  by (simp add: load_notebook_def)

lemma load_notebook_no_cells:
  assumes "read_text w pth = Some source" "json_loads w source = Some data"
    "is_mapping data" "\<not> has_cells_list data"
  shows "load_notebook w pth = Inl (SystemExit 1)"
proof -
  from assms(3) obtain kvs where d: "data = JObj kvs"
    by (cases data) (simp_all add: is_mapping_def)
  show ?thesis
  proof (cases "map_of kvs ''cells''")
    case None
    with assms d show ?thesis by (simp add: load_notebook_def)
  next
    case (Some v)
    with assms(4) d have "\<not> isinstance_list v"
      by (cases v) (simp_all add: has_cells_list_def)
    with assms d Some show ?thesis by (simp add: load_notebook_def)
  qed
qed

lemma load_notebook_not_mapping:
  assumes "read_text w pth = Some source" "json_loads w source = Some data" "\<not> is_mapping data"
  shows "load_notebook w pth = Inl AttributeError"
  using assms by (cases data) (simp_all add: load_notebook_def is_mapping_def)

lemma load_notebook_good:
  assumes "read_text w pth = Some source" "json_loads w source = Some data" "has_cells_list data"
  shows "load_notebook w pth = Inr (data, source)" "json_truthy data"
proof -
  from assms(3) obtain kvs where d: "data = JObj kvs"
    by (cases data) (simp_all add: has_cells_list_def)
  from assms(3) d obtain xs where c: "map_of kvs ''cells'' = Some (JList xs)"
    by (auto simp: has_cells_list_def split: option.splits json.splits)
  from assms d c show "load_notebook w pth = Inr (data, source)"
    by (simp add: load_notebook_def)
  from c have "kvs \<noteq> []" by auto
  with d show "json_truthy data" by simp
qed

lemma run_not_Failure:
  assumes "load_notebook w pth = Inr (data, source)" "json_truthy data"
  shows "run w vb pth d \<noteq> Inr Failure"
  using assms by (auto simp: run_def Let_def split: sum.splits prod.splits)

text \<open>
  C2 (as amended). When the file can be read: a document that does not parse as JSON
  makes \<open>run\<close> return the failure value, with no report, and this is the only way
  \<open>run\<close> returns the failure value; a document whose parsed value is a mapping
  without a list under \<^verbatim>\<open>cells\<close> makes \<open>run\<close> leave through \<^verbatim>\<open>sys.exit(1)\<close>.
\<close>

theorem malformed_document_outcome:
  assumes "read_text w pth = Some source"
  shows "(json_loads w source = None \<longrightarrow> run w vb pth d = Inr Failure) \<and>
         (\<forall>data. json_loads w source = Some data \<and> is_mapping data \<and> \<not> has_cells_list data \<longrightarrow>
            run w vb pth d = Inl (SystemExit 1)) \<and>
         ((run w vb pth d = Inr Failure) = (json_loads w source = None))"
proof (intro conjI allI impI)
  assume "json_loads w source = None"
  with assms show "run w vb pth d = Inr Failure"
    by (simp add: run_def load_notebook_parse_failure)
next
  fix data
  assume "json_loads w source = Some data \<and> is_mapping data \<and> \<not> has_cells_list data"
  with assms have "load_notebook w pth = Inl (SystemExit 1)"
    by (simp add: load_notebook_no_cells)
  then show "run w vb pth d = Inl (SystemExit 1)" by (simp add: run_def)
next
  show "(run w vb pth d = Inr Failure) = (json_loads w source = None)"
  proof (cases "json_loads w source")
    case None
    with assms show ?thesis by (simp add: run_def load_notebook_parse_failure)
  next
    case (Some data)
    have "run w vb pth d \<noteq> Inr Failure"
    proof (cases "is_mapping data")
      case False
      from load_notebook_not_mapping[OF assms Some False] show ?thesis by (simp add: run_def)
    next
      case True
      show ?thesis
      proof (cases "has_cells_list data")
        case False
        from load_notebook_no_cells[OF assms Some True False] show ?thesis by (simp add: run_def)
      next
        case good: True
        from load_notebook_good[OF assms Some good] show ?thesis by (rule run_not_Failure)
      qed
    qed
    with Some show ?thesis by simp
  qed
qed

lemma ex_world_fields:
  "read_text (ex_world raw parsed) ''nb.ipynb'' = Some raw"
  "json_loads (ex_world raw parsed) raw = parsed"
  "Cond_members (ex_world raw parsed) = [Cond_ALL, Cond_ANY]"
  by (simp_all add: ex_world_def)

text \<open>
  The empty mapping is malformed, and \<open>run\<close> does not return the failure value on
  it: the process exits with status 1.
\<close>

theorem malformed_document_counterexample:
  "malformed (Some (JObj [])) \<and>
   run (ex_world ''{}'' (Some (JObj []))) False ''nb.ipynb'' ex_dict = Inl (SystemExit 1) \<and>
   run (ex_world ''{}'' (Some (JObj []))) False ''nb.ipynb'' ex_dict \<noteq> Inr Failure"
  by (simp add: malformed_def has_cells_list_def run_def load_notebook_def ex_world_fields)

theorem malformed_document_outcome_witness:
  "read_text (ex_world ''{'' None) ''nb.ipynb'' = Some ''{'' \<and>
   json_loads (ex_world ''{'' None) ''{'' = None \<and>
   run (ex_world ''{'' None) False ''nb.ipynb'' ex_dict = Inr Failure \<and>
   json_loads (ex_world ex_source_metadata (Some ex_doc_metadata)) ex_source_metadata =
     Some ex_doc_metadata \<and>
   is_mapping ex_doc_metadata \<and> \<not> has_cells_list ex_doc_metadata \<and>
   run (ex_world ex_source_metadata (Some ex_doc_metadata)) False ''nb.ipynb'' ex_dict =
     Inl (SystemExit 1)"
proof -
  have m: "is_mapping ex_doc_metadata" "\<not> has_cells_list ex_doc_metadata"
    by (simp_all add: ex_doc_metadata_def is_mapping_def has_cells_list_def)
  have a: "run (ex_world ''{'' None) False ''nb.ipynb'' ex_dict = Inr Failure"
    using malformed_document_outcome [OF ex_world_fields(1), of "''{''" None False ex_dict]
    by (simp add: ex_world_fields)
  have b: "run (ex_world ex_source_metadata (Some ex_doc_metadata)) False ''nb.ipynb'' ex_dict =
     Inl (SystemExit 1)"
    using malformed_document_outcome [OF ex_world_fields(1),
        of ex_source_metadata "Some ex_doc_metadata" False ex_dict] m
    by (simp add: ex_world_fields)
  from a b m show ?thesis by (simp add: ex_world_fields)
qed

section \<open>The shape of a report\<close>

lemma report_structure:
  assumes "run w vb pth d = Inr (Report st)"
    and "read_text w pth = Some source" and "json_loads w source = Some data"
  shows "status_list st =
           map (file_entry source data pth) (lints_at d FILE Cond_ANY) @
           concat (map (\<lambda>l. rule_block l data pth) (dispatched d (Cond_members w)))"
    and "verbose st = vb"
    and "\<forall>l\<in>set (lints_at d FILE Cond_ANY). isinstance_bool (lint_run l source data pth)"
    and "\<forall>l\<in>set (dispatched d (Cond_members w)). rule_ok l data pth"
proof -
  from assms(1) obtain data' source' where
    ld: "load_notebook w pth = Inr (data', source')"
    and st: "st = \<lparr>status_path = pth, verbose = vb,
           status_list = map (file_entry source' data' pth) (lints_at d FILE Cond_ANY) @
             concat (map (\<lambda>l. rule_block l data' pth) (dispatched d (Cond_members w)))\<rparr>"
    and fb: "\<forall>l\<in>set (lints_at d FILE Cond_ANY). isinstance_bool (lint_run l source' data' pth)"
    and ok: "\<forall>l\<in>set (dispatched d (Cond_members w)). rule_ok l data' pth"
    by (rule run_Report)
  from ld assms(2,3) have eq: "data' = data" "source' = source"
    by (auto simp: load_notebook_def split: sum.splits if_splits)
  from st eq show "status_list st =
           map (file_entry source data pth) (lints_at d FILE Cond_ANY) @
           concat (map (\<lambda>l. rule_block l data pth) (dispatched d (Cond_members w)))"
    by simp
  from st show "verbose st = vb" by simp
  from fb eq show "\<forall>l\<in>set (lints_at d FILE Cond_ANY). isinstance_bool (lint_run l source data pth)"
    by simp
  from ok eq show "\<forall>l\<in>set (dispatched d (Cond_members w)). rule_ok l data pth" by simp
qed

lemma enumerate_list_nth:
  "enumerate_list cs = map (\<lambda>i. (i, cs ! i)) [0..<length cs]"
  by (rule nth_equalityI) (simp_all add: enumerate_list_def)

lemma map_snd_selected:
  "map snd (selected s (enumerate_list cs)) = filter (matches_scope s) cs"
proof -
  have "map snd (selected s (enumerate_list cs)) =
        filter (matches_scope s) (map snd (enumerate_list cs))"
    by (simp add: selected_def filter_map comp_def)
  also have "map snd (enumerate_list cs) = cs"
    by (simp add: enumerate_list_def)
  finally show ?thesis .
qed

lemma map_fst_selected:
  "map fst (selected s (enumerate_list cs)) =
     filter (\<lambda>i. matches_scope s (cs ! i)) [0..<length cs]"
  by (simp add: selected_def enumerate_list_nth filter_map comp_def)

lemma selected_cells_nth:
  "ic \<in> set (selected_cells l data) \<Longrightarrow>
     fst ic < length (cells_of data) \<and> snd ic = cells_of data ! fst ic \<and>
     matches_scope (scope l) (snd ic)"
  by (auto simp: selected_cells_def selected_def enumerate_list_nth)

lemma lint_member_entry [simp]:
  "lint (member_entry l pth ic) = l" "is_group_entry (member_entry l pth ic)"
  "group (member_entry l pth ic) = Some (name l)"
  "entry_name (member_entry l pth ic) = name l @ ''__cell_'' @ str_of_nat (fst ic)"
  "is_success (member_entry l pth ic) = truthy (cell_verdict l pth (snd ic))"
  by (simp_all add: member_entry_def)

lemma lint_aggregate_entry [simp]:
  "lint (aggregate_entry l data pth) = l" "\<not> is_group_entry (aggregate_entry l data pth)"
  "group (aggregate_entry l data pth) = Some (name l)"
  "entry_name (aggregate_entry l data pth) = name l"
  "is_success (aggregate_entry l data pth) = group_verdict l data pth"
  by (simp_all add: aggregate_entry_def)

lemma lint_file_entry [simp]:
  "lint (file_entry source data pth l) = l" "\<not> is_group_entry (file_entry source data pth l)"
  "group (file_entry source data pth l) = None"
  "entry_name (file_entry source data pth l) = name l"
  "is_success (file_entry source data pth l) = truthy (lint_run l source data pth)"
  by (simp_all add: file_entry_def)

lemma aggregate_in_report:
  assumes "status_list st =
           map (file_entry source data pth) fl @ concat (map (\<lambda>l. rule_block l data pth) ls)"
    and "e \<in> set (status_list st)" and "aggregate_of l e"
  shows "e = aggregate_entry l data pth \<and> l \<in> set ls"
  using assms
  by (auto simp: aggregate_of_def rule_block_def member_entries_def)

lemma aggregate_present:
  assumes "status_list st =
           map (file_entry source data pth) fl @ concat (map (\<lambda>l. rule_block l data pth) ls)"
    and "l \<in> set ls"
  shows "\<exists>e\<in>set (status_list st). aggregate_of l e"
proof -
  have "aggregate_entry l data pth \<in> set (status_list st)"
    using assms by (auto simp: rule_block_def)
  moreover have "aggregate_of l (aggregate_entry l data pth)"
    by (simp add: aggregate_of_def)
  ultimately show ?thesis by blast
qed

lemma truthy_bool: "isinstance_bool v \<Longrightarrow> truthy v = (v = PBool True)"
  by (cases v) auto

lemma py_all_bools:
  "list_all isinstance_bool vs \<Longrightarrow> py_all vs = (\<forall>v\<in>set vs. v = PBool True)"
  by (induction vs) (auto simp: py_all_def truthy_bool)

lemma py_any_bools:
  "list_all isinstance_bool vs \<Longrightarrow> py_any vs = (\<exists>v\<in>set vs. v = PBool True)"
  by (induction vs) (auto simp: py_any_def truthy_bool)

lemma set_cell_verdicts:
  "set (cell_verdicts l data pth) =
     (\<lambda>c. lint_run l (cell_source c) c pth) ` {c \<in> set (cells_of data). matches_scope (scope l) c}"
proof -
  have "cell_verdicts l data pth =
        map (\<lambda>c. lint_run l (cell_source c) c pth) (map snd (selected_cells l data))"
    by (simp add: cell_verdicts_def cell_verdict_def comp_def)
  also have "map snd (selected_cells l data) = filter (matches_scope (scope l)) (cells_of data)"
    by (simp add: selected_cells_def map_snd_selected)
  finally show ?thesis by auto
qed

lemma group_verdict_any:
  assumes "rule_ok l data pth" "cond l = Some Cond_ANY"
  shows "group_verdict l data pth =
     (\<exists>c\<in>set (cells_of data). matches_scope (scope l) c \<and> lint_run l (cell_source c) c pth = PBool True)"
proof -
  from assms have "group_verdict l data pth = (PBool True \<in> set (cell_verdicts l data pth))"
    by (simp add: group_verdict_def rule_ok_def py_any_bools)
  also have "\<dots> = (\<exists>c\<in>set (cells_of data). matches_scope (scope l) c \<and>
                      lint_run l (cell_source c) c pth = PBool True)"
    unfolding set_cell_verdicts image_iff by auto
  finally show ?thesis .
qed

lemma group_verdict_all:
  assumes "rule_ok l data pth" "cond l = Some Cond_ALL"
  shows "group_verdict l data pth =
     (\<forall>c\<in>set (cells_of data). matches_scope (scope l) c \<longrightarrow> lint_run l (cell_source c) c pth = PBool True)"
  using assms by (auto simp: group_verdict_def rule_ok_def py_all_bools set_cell_verdicts)

text \<open>
  C3 (as amended). For a rule of scope \<^verbatim>\<open>CODE\<close> and condition \<^verbatim>\<open>ANY\<close> whose callback
  always returns \<^verbatim>\<open>True\<close>, the report holds an aggregate entry, and its verdict is
  true when the document has a code cell and false when it has none.
\<close>

theorem code_any_aggregate:
  assumes "run w vb pth d = Inr (Report st)"
    and "read_text w pth = Some source" and "json_loads w source = Some data"
    and "l \<in> set (dispatched d (Cond_members w))"
    and "scope l = CODE" and "cond l = Some Cond_ANY"
    and "\<forall>s c p. lint_run l s c p = PBool True"
  shows "(\<exists>e\<in>set (status_list st). aggregate_of l e) \<and>
         (\<forall>e\<in>set (status_list st). aggregate_of l e \<longrightarrow>
            is_success e = (\<exists>c\<in>set (cells_of data). cell_type_of c = JStr ''code''))"
proof
  note r = report_structure [OF assms(1,2,3)]
  show "\<exists>e\<in>set (status_list st). aggregate_of l e"
    using r(1) assms(4) by (rule aggregate_present)
  have ok: "rule_ok l data pth" using r(4) assms(4) by blast
  have v: "group_verdict l data pth = (\<exists>c\<in>set (cells_of data). cell_type_of c = JStr ''code'')"
    using group_verdict_any [OF ok assms(6)] assms(5,7) by (simp add: matches_scope_def)
  show "\<forall>e\<in>set (status_list st). aggregate_of l e \<longrightarrow>
          is_success e = (\<exists>c\<in>set (cells_of data). cell_type_of c = JStr ''code'')"
  proof (intro ballI impI)
    fix e assume "e \<in> set (status_list st)" "aggregate_of l e"
    with r(1) have "e = aggregate_entry l data pth" using aggregate_in_report by blast
    with v show "is_success e = (\<exists>c\<in>set (cells_of data). cell_type_of c = JStr ''code'')"
      by simp
  qed
qed

text \<open>
  C6. For a rule of scope \<^verbatim>\<open>TEXT\<close> and condition \<^verbatim>\<open>ALL\<close>, the report holds an
  aggregate entry, and its verdict is true exactly when the callback returns
  \<^verbatim>\<open>True\<close> on every markdown cell of the document; with no markdown cell it is true.
\<close>

theorem text_all_aggregate:
  assumes "run w vb pth d = Inr (Report st)"
    and "read_text w pth = Some source" and "json_loads w source = Some data"
    and "l \<in> set (dispatched d (Cond_members w))"
    and "scope l = TEXT" and "cond l = Some Cond_ALL"
  shows "(\<exists>e\<in>set (status_list st). aggregate_of l e) \<and>
         (\<forall>e\<in>set (status_list st). aggregate_of l e \<longrightarrow>
            is_success e =
              (\<forall>c\<in>set (cells_of data). cell_type_of c = JStr ''markdown'' \<longrightarrow>
                 lint_run l (cell_source c) c pth = PBool True))"
proof
  note r = report_structure [OF assms(1,2,3)]
  show "\<exists>e\<in>set (status_list st). aggregate_of l e"
    using r(1) assms(4) by (rule aggregate_present)
  have ok: "rule_ok l data pth" using r(4) assms(4) by blast
  have v: "group_verdict l data pth =
      (\<forall>c\<in>set (cells_of data). cell_type_of c = JStr ''markdown'' \<longrightarrow>
         lint_run l (cell_source c) c pth = PBool True)"
    using group_verdict_all [OF ok assms(6)] assms(5) by (simp add: matches_scope_def)
  show "\<forall>e\<in>set (status_list st). aggregate_of l e \<longrightarrow>
          is_success e =
            (\<forall>c\<in>set (cells_of data). cell_type_of c = JStr ''markdown'' \<longrightarrow>
               lint_run l (cell_source c) c pth = PBool True)"
  proof (intro ballI impI)
    fix e assume "e \<in> set (status_list st)" "aggregate_of l e"
    with r(1) have "e = aggregate_entry l data pth" using aggregate_in_report by blast
    with v show "is_success e =
            (\<forall>c\<in>set (cells_of data). cell_type_of c = JStr ''markdown'' \<longrightarrow>
               lint_run l (cell_source c) c pth = PBool True)"
      by simp
  qed
qed


lemma ex_true_lint_fields:
  "name ex_true_lint = ''license_check''" "scope ex_true_lint = CODE"
  "cond ex_true_lint = Some Cond_ANY"
  "lint_run ex_true_lint = (\<lambda>source cell pth. PBool True)"
  by (simp_all add: ex_true_lint_def)

lemma list_all_is_JStr: "list_all is_JStr (map JStr lines)"
  by (induction lines) simp_all

lemma ex_cell_simps:
  "cell_type_of (ex_cell kind lines) = JStr kind"
  "cell_source (ex_cell kind lines) = concat lines"
  by (simp_all add: cell_type_of_def cell_source_def ex_cell_def comp_def list_all_is_JStr)

lemma ex_cells_of:
  "cells_of ex_doc =
     [ex_cell ''code'' [''x=1''], ex_cell ''markdown'' [''# '', ''Title''], ex_cell ''code'' []]"
  "cells_of ex_doc_text = [ex_cell ''markdown'' [''# Title'']]"
  by (simp_all add: cells_of_def ex_doc_def ex_doc_text_def)

lemma ex_run_code:
  "run (ex_world ex_source (Some ex_doc)) False ''nb.ipynb'' ex_dict_code = Inr (Report ex_report_code)"
  by (simp add: run_def load_notebook_def ex_world_def ex_doc_def ex_cell_def ex_dict_code_def
      lookup_lints_def LinterStatus_init_def add_entry_def run_lint_group_def enumerate_list_def
      py_any_def py_all_def ex_report_code_def mk_entry_def str_of_nat_small ex_true_lint_fields
      Let_def)

lemma ex_run_no_code:
  "run (ex_world ex_source_text (Some ex_doc_text)) False ''nb.ipynb'' ex_dict_code =
     Inr (Report ex_report_no_code)"
  by (simp add: run_def load_notebook_def ex_world_def ex_doc_text_def ex_cell_def
      ex_dict_code_def lookup_lints_def LinterStatus_init_def add_entry_def run_lint_group_def
      enumerate_list_def py_any_def py_all_def ex_report_no_code_def mk_entry_def
      str_of_nat_small ex_true_lint_fields Let_def)

lemma ex_dispatched:
  "dispatched ex_dict [Cond_ALL, Cond_ANY] = [ex_code_lint, ex_text_lint]"
  "dispatched ex_dict_code [Cond_ALL, Cond_ANY] = [ex_true_lint]"
  by (simp_all add: dispatched_def lints_at_def lookup_lints_def ex_dict_def ex_dict_code_def)

text \<open>
  A notebook with one markdown cell and no code cell: the always-true rule of scope
  \<^verbatim>\<open>CODE\<close> and condition \<^verbatim>\<open>ANY\<close> gets the aggregate verdict false.
\<close>

theorem code_any_aggregate_counterexample:
  "cells_of ex_doc_text = [ex_cell ''markdown'' [''# Title'']] \<and>
   run (ex_world ex_source_text (Some ex_doc_text)) False ''nb.ipynb'' ex_dict_code =
     Inr (Report \<lparr>status_path = ''nb.ipynb'', verbose = False, status_list =
       [\<lparr>lint = ex_true_lint, is_success = False, entry_name = ''license_check'',
         group = Some ''license_check'', is_group_entry = False\<rparr>]\<rparr>)"
  using ex_run_no_code by (simp add: ex_cells_of ex_report_no_code_def mk_entry_def)

theorem code_any_aggregate_witness:
  "run (ex_world ex_source (Some ex_doc)) False ''nb.ipynb'' ex_dict_code = Inr (Report ex_report_code) \<and>
   (\<exists>e\<in>set (status_list ex_report_code). aggregate_of ex_true_lint e \<and> is_success e) \<and>
   run (ex_world ex_source_text (Some ex_doc_text)) False ''nb.ipynb'' ex_dict_code =
     Inr (Report ex_report_no_code) \<and>
   (\<exists>e\<in>set (status_list ex_report_no_code). aggregate_of ex_true_lint e \<and> \<not> is_success e)"
proof -
  have disp: "ex_true_lint \<in> set (dispatched ex_dict_code (Cond_members (ex_world raw parsed)))"
    for raw parsed
    by (simp add: ex_world_fields ex_dispatched)
  have always: "\<forall>s c p. lint_run ex_true_lint s c p = PBool True"
    by (simp add: ex_true_lint_fields)
  have a: "\<exists>e\<in>set (status_list ex_report_code). aggregate_of ex_true_lint e \<and> is_success e"
    using code_any_aggregate [OF ex_run_code ex_world_fields(1) ex_world_fields(2) disp
        ex_true_lint_fields(2) ex_true_lint_fields(3) always]
    by (simp add: ex_cells_of ex_cell_simps) blast
  have b: "\<exists>e\<in>set (status_list ex_report_no_code). aggregate_of ex_true_lint e \<and> \<not> is_success e"
    using code_any_aggregate [OF ex_run_no_code ex_world_fields(1) ex_world_fields(2) disp
        ex_true_lint_fields(2) ex_true_lint_fields(3) always]
    by (simp add: ex_cells_of ex_cell_simps) blast
  from a b ex_run_code ex_run_no_code show ?thesis by blast
qed

theorem text_all_aggregate_witness:
  "run (ex_world ex_source (Some ex_doc)) True ''nb.ipynb'' ex_dict = Inr (Report ex_report) \<and>
   (\<exists>e\<in>set (status_list ex_report). aggregate_of ex_text_lint e \<and> is_success e)"
proof -
  have disp: "ex_text_lint \<in> set (dispatched ex_dict (Cond_members (ex_world ex_source (Some ex_doc))))"
    by (simp add: ex_world_fields ex_dispatched)
  have "\<exists>e\<in>set (status_list ex_report). aggregate_of ex_text_lint e \<and> is_success e"
    using text_all_aggregate [OF ex_run ex_world_fields(1) ex_world_fields(2) disp
        ex_lint_fields(10) ex_lint_fields(11)]
    by (simp add: ex_cells_of ex_cell_simps ex_lint_fields) blast
  with ex_run show ?thesis by blast
qed

section \<open>Entries of one rule\<close>

lemma filter_member_block:
  "filter (member_of l) (rule_block l' data pth) = (if l' = l then member_entries l data pth else [])"
  by (auto simp: rule_block_def member_entries_def member_of_def filter_empty_conv
      intro!: filter_True)

lemma filter_member_file:
  "filter (member_of l) (map (file_entry source data pth) fl) = []"
  by (simp add: filter_empty_conv member_of_def)

lemma filter_member_blocks:
  "filter (member_of l) (concat (map (\<lambda>l'. rule_block l' data pth) ls)) =
     concat (replicate (count_list ls l) (member_entries l data pth))"
  by (induction ls) (simp_all add: filter_member_block)

lemma members_of_rule:
  assumes "run w vb pth d = Inr (Report st)"
    and "read_text w pth = Some source" and "json_loads w source = Some data"
    and "count_list (dispatched d (Cond_members w)) l = 1"
  shows "filter (member_of l) (status_list st) = member_entries l data pth"
  using report_structure(1) [OF assms(1,2,3)] assms(4)
  by (simp add: filter_member_file filter_member_blocks)

lemma length_selected_cells:
  "length (selected_cells l data) = length (filter (matches_scope (scope l)) (cells_of data))"
proof -
  have "length (selected_cells l data) = length (map snd (selected_cells l data))" by simp
  also have "\<dots> = length (filter (matches_scope (scope l)) (cells_of data))"
    unfolding selected_cells_def map_snd_selected ..
  finally show ?thesis .
qed

text \<open>
  C7. For a rule that the cell-level dispatch runs once, the member entries of the
  report are one per cell kept by the rule's scope, in cell order, and nothing else:
  their number is the number of cells matching the scope.
\<close>

theorem member_entry_count:
  assumes "run w vb pth d = Inr (Report st)"
    and "read_text w pth = Some source" and "json_loads w source = Some data"
    and "count_list (dispatched d (Cond_members w)) l = 1"
  shows "filter (member_of l) (status_list st) =
           map (member_entry l pth)
             (filter (\<lambda>ic. matches_scope (scope l) (snd ic)) (enumerate_list (cells_of data))) \<and>
         length (filter (member_of l) (status_list st)) =
           length (filter (matches_scope (scope l)) (cells_of data))"
proof -
  have m: "filter (member_of l) (status_list st) = member_entries l data pth"
    using assms by (rule members_of_rule)
  have "member_entries l data pth =
          map (member_entry l pth)
            (filter (\<lambda>ic. matches_scope (scope l) (snd ic)) (enumerate_list (cells_of data)))"
    by (simp add: member_entries_def selected_cells_def selected_def)
  moreover have "length (member_entries l data pth) =
                 length (filter (matches_scope (scope l)) (cells_of data))"
    by (simp add: member_entries_def length_selected_cells)
  ultimately show ?thesis using m by simp
qed

lemma ex_lints_distinct:
  "ex_code_lint \<noteq> ex_text_lint" "ex_text_lint \<noteq> ex_code_lint"
  by (simp_all add: ex_code_lint_def ex_text_lint_def)

theorem member_entry_count_witness:
  "run (ex_world ex_source (Some ex_doc)) True ''nb.ipynb'' ex_dict = Inr (Report ex_report) \<and>
   count_list (dispatched ex_dict (Cond_members (ex_world ex_source (Some ex_doc)))) ex_code_lint = 1 \<and>
   length (filter (matches_scope (scope ex_code_lint)) (cells_of ex_doc)) = 2 \<and>
   length (filter (member_of ex_code_lint) (status_list ex_report)) = 2"
proof -
  have c: "count_list (dispatched ex_dict (Cond_members (ex_world ex_source (Some ex_doc)))) ex_code_lint = 1"
    by (simp add: ex_world_fields ex_dispatched ex_lints_distinct)
  have n: "length (filter (matches_scope (scope ex_code_lint)) (cells_of ex_doc)) = 2"
    by (simp add: ex_lint_fields ex_cells_of matches_scope_def ex_cell_simps)
  from member_entry_count [OF ex_run ex_world_fields(1) ex_world_fields(2) c]
  have "length (filter (member_of ex_code_lint) (status_list ex_report)) =
        length (filter (matches_scope (scope ex_code_lint)) (cells_of ex_doc))"
    by (rule conjunct2)
  with n have "length (filter (member_of ex_code_lint) (status_list ex_report)) = 2"
    by (simp only:)
  with ex_run c n show ?thesis by blast
qed

section \<open>Order of the entries\<close>

lemma sorted_selected_cells: "sorted_wrt (<) (map fst (selected_cells l data))"
  unfolding selected_cells_def map_fst_selected
  by (rule sorted_wrt_filter) simp

lemma lookup_register:
  assumes "\<And>s c. lookup_lints d s c = Inr (f s c)"
  shows "lookup_lints (register l d) s c =
           Inr (f s c @ (if scope l = s \<and> cond l = Some c then [l] else []))"
proof (cases "cond l")
  case None
  then show ?thesis by (simp add: register_def assms)
next
  case (Some c')
  from assms [of "scope l" c'] obtain by_cond where
    d: "d (scope l) = Some by_cond" and bc: "by_cond c' = Some (f (scope l) c')"
    by (auto simp: lookup_lints_def split: option.splits)
  have reg: "register l d = d(scope l \<mapsto> by_cond(c' \<mapsto> f (scope l) c' @ [l]))"
    by (simp add: register_def Some d bc)
  show ?thesis
  proof (cases "scope l = s")
    case False
    then have "lookup_lints (register l d) s c = lookup_lints d s c"
      by (simp add: reg lookup_lints_def)
    with False show ?thesis by (simp add: assms)
  next
    case True
    show ?thesis
    proof (cases "c' = c")
      case same: True
      with True Some show ?thesis by (simp add: reg lookup_lints_def)
    next
      case other: False
      from assms [of s c] True d have "by_cond c = Some (f s c)"
        by (auto simp: lookup_lints_def split: option.splits)
      with True Some other show ?thesis by (simp add: reg lookup_lints_def)
    qed
  qed
qed

lemma lookup_register_all:
  assumes "\<And>s c. lookup_lints d s c = Inr (f s c)"
  shows "lookup_lints (register_all rs d) s c =
           Inr (f s c @ filter (\<lambda>l. scope l = s \<and> cond l = Some c) rs)"
  using assms
proof (induction rs arbitrary: d f)
  case Nil
  then show ?case by simp
next
  case (Cons l rs)
  have "lookup_lints (register l d) s' c' =
          Inr (f s' c' @ (if scope l = s' \<and> cond l = Some c' then [l] else []))" for s' c'
    using Cons.prems by (rule lookup_register)
  from Cons.IH [OF this] show ?case by simp
qed

lemma lookup_registered:
  "lookup_lints (register_all rs empty_registry) s c =
     Inr (filter (\<lambda>l. scope l = s \<and> cond l = Some c) rs)"
proof -
  have "lookup_lints empty_registry s' c' = Inr []" for s' c'
    by (simp add: lookup_lints_def empty_registry_def)
  from lookup_register_all [OF this] show ?thesis by simp
qed

lemma run_conds_lookup_cong:
  assumes "\<And>c. lookup_lints d' s c = lookup_lints d s c"
  shows "run_conds d' s cs data pth st = run_conds d s cs data pth st"
  by (induction cs arbitrary: st) (simp_all add: assms split: sum.splits prod.splits)

lemma run_scopes_lookup_cong:
  assumes "\<And>s c. lookup_lints d' s c = lookup_lints d s c"
  shows "run_scopes d' cs ss data pth st = run_scopes d cs ss data pth st"
proof (induction ss arbitrary: st)
  case Nil
  show ?case by simp
next
  case (Cons s ss)
  have a: "run_conds d' s cs data pth st = run_conds d s cs data pth st"
    by (rule run_conds_lookup_cong) (rule assms)
  show ?case by (simp add: a Cons.IH split: sum.splits prod.splits)
qed

lemma run_lookup_cong:
  assumes "\<And>s c. lookup_lints d' s c = lookup_lints d s c"
  shows "run w vb pth d' = run w vb pth d"
proof -
  have rs: "run_scopes d' cs ss data pth st = run_scopes d cs ss data pth st" for cs ss data st
    by (rule run_scopes_lookup_cong) (rule assms)
  show ?thesis by (simp only: run_def assms rs)
qed

text \<open>
  C8 (as amended). A report lists its entries in the order of the dispatch, not in the
  order the rules were registered: first one entry per rule of the key \<^verbatim>\<open>FILE\<close> and
  \<^verbatim>\<open>ANY\<close>, then one block per cell-level rule, key by key: the scopes \<^verbatim>\<open>CELLS\<close>,
  \<^verbatim>\<open>CODE\<close>, \<^verbatim>\<open>TEXT\<close>, and for each scope the members of \<^verbatim>\<open>Options.Cond\<close>. Under one
  key the rules keep the order in which they were registered. A block is the rule's
  member entries, by increasing cell index, followed by its aggregate entry, and
  stands before every entry of a later rule.
\<close>

theorem report_entry_order:
  assumes "run w vb pth d = Inr (Report st)"
    and "read_text w pth = Some source" and "json_loads w source = Some data"
  shows "status_list st =
           map (file_entry source data pth) (lints_at d FILE Cond_ANY) @
           concat (map (\<lambda>l. map (member_entry l pth) (selected_cells l data) @
                             [aggregate_entry l data pth])
                    (dispatched d (Cond_members w))) \<and>
         (\<forall>l. sorted_wrt (<) (map fst (selected_cells l data)) \<and>
              (\<forall>ic\<in>set (selected_cells l data).
                 fst ic < length (cells_of data) \<and> snd ic = cells_of data ! fst ic)) \<and>
         (\<forall>rs s c. lints_at (register_all rs empty_registry) s c =
                     filter (\<lambda>l. scope l = s \<and> cond l = Some c) rs)"
proof (intro conjI)
  show "status_list st =
           map (file_entry source data pth) (lints_at d FILE Cond_ANY) @
           concat (map (\<lambda>l. map (member_entry l pth) (selected_cells l data) @
                             [aggregate_entry l data pth])
                    (dispatched d (Cond_members w)))"
    using report_structure(1) [OF assms] by (simp add: rule_block_def member_entries_def)
  show "\<forall>l. sorted_wrt (<) (map fst (selected_cells l data)) \<and>
              (\<forall>ic\<in>set (selected_cells l data).
                 fst ic < length (cells_of data) \<and> snd ic = cells_of data ! fst ic)"
    using sorted_selected_cells selected_cells_nth by blast
  show "\<forall>rs s c. lints_at (register_all rs empty_registry) s c =
                     filter (\<lambda>l. scope l = s \<and> cond l = Some c) rs"
    by (simp add: lints_at_def lookup_registered)
qed

lemma ex_registered:
  "lookup_lints (register_all [ex_text_lint, ex_code_lint, ex_file_lint] empty_registry) s c =
     lookup_lints ex_dict s c"
proof -
  have "filter (\<lambda>l. scope l = s \<and> cond l = Some c) [ex_text_lint, ex_code_lint, ex_file_lint] =
        lints_at ex_dict s c"
    by (cases s; cases c)
       (simp_all add: ex_lint_fields lints_at_def lookup_lints_def ex_dict_def)
  moreover have "lookup_lints ex_dict s c = Inr (lints_at ex_dict s c)"
    by (cases s; cases c) (simp_all add: lints_at_def lookup_lints_def ex_dict_def)
  ultimately show ?thesis by (simp only: lookup_registered)
qed

text \<open>
  The text rule, the code rule and the file rule registered in this order: the report
  starts with the entry of the file rule, registered last, and ends with the entries
  of the text rule, registered first.
\<close>

theorem report_entry_order_counterexample:
  "map name [ex_text_lint, ex_code_lint, ex_file_lint] =
     [''heading'', ''has_code'', ''not_translation''] \<and>
   run (ex_world ex_source (Some ex_doc)) True ''nb.ipynb''
     (register_all [ex_text_lint, ex_code_lint, ex_file_lint] empty_registry) =
     Inr (Report ex_report) \<and>
   map entry_name (status_list ex_report) =
     [''not_translation'', ''has_code__cell_0'', ''has_code__cell_2'', ''has_code'',
      ''heading__cell_1'', ''heading'']"
proof -
  have "run (ex_world ex_source (Some ex_doc)) True ''nb.ipynb''
     (register_all [ex_text_lint, ex_code_lint, ex_file_lint] empty_registry) =
     run (ex_world ex_source (Some ex_doc)) True ''nb.ipynb'' ex_dict"
    by (rule run_lookup_cong) (rule ex_registered)
  with ex_run show ?thesis
    by (simp add: ex_lint_fields ex_report_def mk_entry_def)
qed

lemma ex_selected_cells:
  "selected_cells ex_code_lint ex_doc = [(0, ex_cell ''code'' [''x=1'']), (2, ex_cell ''code'' [])]"
  "selected_cells ex_text_lint ex_doc = [(1, ex_cell ''markdown'' [''# '', ''Title''])]"
  by (simp_all add: selected_cells_def selected_def ex_cells_of enumerate_list_def
      matches_scope_def ex_lint_fields ex_cell_simps numeral_2_eq_2)

theorem report_entry_order_witness:
  "run (ex_world ex_source (Some ex_doc)) True ''nb.ipynb'' ex_dict = Inr (Report ex_report) \<and>
   map entry_name (status_list ex_report) =
     [''not_translation'', ''has_code__cell_0'', ''has_code__cell_2'', ''has_code'',
      ''heading__cell_1'', ''heading''] \<and>
   map is_group_entry (status_list ex_report) = [False, True, True, False, True, False]"
proof -
  have fl: "lints_at ex_dict FILE Cond_ANY = [ex_file_lint]"
    by (simp add: lints_at_def lookup_lints_def ex_dict_def)
  from report_entry_order [OF ex_run ex_world_fields(1) ex_world_fields(2)]
  have "status_list ex_report =
          map (file_entry ex_source ex_doc ''nb.ipynb'') (lints_at ex_dict FILE Cond_ANY) @
          concat (map (\<lambda>l. map (member_entry l ''nb.ipynb'') (selected_cells l ex_doc) @
                            [aggregate_entry l ex_doc ''nb.ipynb''])
                   (dispatched ex_dict (Cond_members (ex_world ex_source (Some ex_doc)))))"
    by blast
  then have "map entry_name (status_list ex_report) =
     [''not_translation'', ''has_code__cell_0'', ''has_code__cell_2'', ''has_code'',
      ''heading__cell_1'', ''heading''] \<and>
   map is_group_entry (status_list ex_report) = [False, True, True, False, True, False]"
    by (simp add: fl ex_world_fields ex_dispatched ex_selected_cells ex_lint_fields
        str_of_nat_small numeral_2_eq_2)
  with ex_run show ?thesis by blast
qed

section \<open>Names of member entries\<close>

lemma str_of_nat_nonempty: "str_of_nat n \<noteq> []"
  by (subst str_of_nat.simps) simp

lemma digit_char_inj:
  assumes "a < 10" "b < 10" "digit_char a = digit_char b"
  shows "a = b"
proof -
  have d: "distinct ''0123456789''" by simp
  have l: "length ''0123456789'' = 10" by simp
  from assms show ?thesis
    unfolding digit_char_def using nth_eq_iff_index_eq [OF d] l by simp
qed

lemma str_of_nat_inj: "str_of_nat n = str_of_nat m \<Longrightarrow> n = m"
proof (induction n arbitrary: m rule: less_induct)
  case (less n)
  show ?case
  proof (cases "n < 10")
    case True
    then have n: "str_of_nat n = [digit_char n]" by (subst str_of_nat.simps) simp
    show ?thesis
    proof (cases "m < 10")
      case m: True
      then have "str_of_nat m = [digit_char m]" by (subst str_of_nat.simps) simp
      with n less.prems have "digit_char n = digit_char m" by simp
      with True m show ?thesis by (rule digit_char_inj)
    next
      case False
      then have "str_of_nat m = str_of_nat (m div 10) @ [digit_char (m mod 10)]"
        by (subst str_of_nat.simps) simp
      with n less.prems have "str_of_nat (m div 10) = []" by simp
      with str_of_nat_nonempty show ?thesis by blast
    qed
  next
    case False
    then have n: "str_of_nat n = str_of_nat (n div 10) @ [digit_char (n mod 10)]"
      by (subst str_of_nat.simps) simp
    show ?thesis
    proof (cases "m < 10")
      case True
      then have "str_of_nat m = [digit_char m]" by (subst str_of_nat.simps) simp
      with n less.prems have "str_of_nat (n div 10) = []" by simp
      with str_of_nat_nonempty show ?thesis by blast
    next
      case m: False
      then have "str_of_nat m = str_of_nat (m div 10) @ [digit_char (m mod 10)]"
        by (subst str_of_nat.simps) simp
      with n less.prems have
        a: "str_of_nat (n div 10) = str_of_nat (m div 10)"
        and b: "digit_char (n mod 10) = digit_char (m mod 10)"
        by simp_all
      from False have "n div 10 < n" by simp
      from less.IH [OF this a] have q: "n div 10 = m div 10" .
      have r: "n mod 10 = m mod 10" using b by (intro digit_char_inj) simp_all
      have "n = 10 * (n div 10) + n mod 10" by simp
      also have "\<dots> = 10 * (m div 10) + m mod 10" by (simp only: q r)
      also have "\<dots> = m" by simp
      finally show ?thesis .
    qed
  qed
qed

text \<open>
  C9. The name of a member entry is the rule's name, \<^verbatim>\<open>__cell_\<close>, and the decimal
  index of the cell among all cells of the document: the names of a rule's member
  entries list the document positions of the cells its scope keeps, and two such names
  are equal only for the same position. In the sample notebook the text rule's only
  member is cell 1 and the code rule's are cells 0 and 2.
\<close>

theorem member_entry_names:
  assumes "run w vb pth d = Inr (Report st)"
    and "read_text w pth = Some source" and "json_loads w source = Some data"
    and "count_list (dispatched d (Cond_members w)) l = 1"
  shows "map entry_name (filter (member_of l) (status_list st)) =
           map (\<lambda>i. name l @ ''__cell_'' @ str_of_nat i)
             (filter (\<lambda>i. matches_scope (scope l) (cells_of data ! i))
                [0..<length (cells_of data)]) \<and>
         (\<forall>i j. name l @ ''__cell_'' @ str_of_nat i = name l @ ''__cell_'' @ str_of_nat j \<longrightarrow>
                i = j)"
proof
  have "map entry_name (filter (member_of l) (status_list st)) =
        map (\<lambda>i. name l @ ''__cell_'' @ str_of_nat i) (map fst (selected_cells l data))"
    using members_of_rule [OF assms] by (simp add: member_entries_def comp_def)
  then show "map entry_name (filter (member_of l) (status_list st)) =
           map (\<lambda>i. name l @ ''__cell_'' @ str_of_nat i)
             (filter (\<lambda>i. matches_scope (scope l) (cells_of data ! i))
                [0..<length (cells_of data)])"
    by (simp only: selected_cells_def map_fst_selected)
  show "\<forall>i j. name l @ ''__cell_'' @ str_of_nat i = name l @ ''__cell_'' @ str_of_nat j \<longrightarrow>
              i = j"
    using str_of_nat_inj by simp
qed

theorem member_entry_names_witness:
  "run (ex_world ex_source (Some ex_doc)) True ''nb.ipynb'' ex_dict = Inr (Report ex_report) \<and>
   count_list (dispatched ex_dict (Cond_members (ex_world ex_source (Some ex_doc)))) ex_text_lint = 1 \<and>
   map entry_name (filter (member_of ex_text_lint) (status_list ex_report)) =
     [''heading__cell_1''] \<and>
   filter (\<lambda>i. matches_scope (scope ex_text_lint) (cells_of ex_doc ! i))
     [0..<length (cells_of ex_doc)] = [1] \<and>
   map entry_name (filter (member_of ex_code_lint) (status_list ex_report)) =
     [''has_code__cell_0'', ''has_code__cell_2'']"
proof -
  have c: "count_list (dispatched ex_dict (Cond_members (ex_world ex_source (Some ex_doc)))) ex_text_lint = 1"
    by (simp add: ex_world_fields ex_dispatched ex_lints_distinct)
  have c': "count_list (dispatched ex_dict (Cond_members (ex_world ex_source (Some ex_doc)))) ex_code_lint = 1"
    by (simp add: ex_world_fields ex_dispatched ex_lints_distinct)
  have i: "filter (\<lambda>i. matches_scope (scope ex_text_lint) (cells_of ex_doc ! i))
     [0..<length (cells_of ex_doc)] = [1]"
    using map_fst_selected [of "scope ex_text_lint" "cells_of ex_doc"] ex_selected_cells(2)
    by (simp add: selected_cells_def)
  have i': "filter (\<lambda>i. matches_scope (scope ex_code_lint) (cells_of ex_doc ! i))
     [0..<length (cells_of ex_doc)] = [0, 2]"
    using map_fst_selected [of "scope ex_code_lint" "cells_of ex_doc"] ex_selected_cells(1)
    by (simp add: selected_cells_def)
  have a: "map entry_name (filter (member_of ex_text_lint) (status_list ex_report)) =
     [''heading__cell_1'']"
    using member_entry_names [OF ex_run ex_world_fields(1) ex_world_fields(2) c, THEN conjunct1]
    unfolding i by (simp add: ex_lint_fields str_of_nat_small)
  have b: "map entry_name (filter (member_of ex_code_lint) (status_list ex_report)) =
     [''has_code__cell_0'', ''has_code__cell_2'']"
    using member_entry_names [OF ex_run ex_world_fields(1) ex_world_fields(2) c', THEN conjunct1]
    unfolding i' by (simp add: ex_lint_fields str_of_nat_small numeral_2_eq_2)
  from ex_run c i a b show ?thesis by blast
qed

section \<open>File-level rules\<close>

lemma run_conds_cong:
  assumes "d' s = d s"
  shows "run_conds d' s cs data pth st = run_conds d s cs data pth st"
proof -
  have lk: "lookup_lints d' s c = lookup_lints d s c" for c
    using assms by (simp add: lookup_lints_def)
  show ?thesis
    by (induction cs arbitrary: st) (simp_all add: lk split: sum.splits prod.splits)
qed

lemma run_scopes_cong:
  assumes "\<forall>s\<in>set ss. d' s = d s"
  shows "run_scopes d' cs ss data pth st = run_scopes d cs ss data pth st"
  using assms
proof (induction ss arbitrary: st)
  case Nil
  show ?case by simp
next
  case (Cons s ss)
  have a: "run_conds d' s cs data pth st = run_conds d s cs data pth st"
    using Cons.prems by (intro run_conds_cong) simp
  have b: "run_scopes d' cs ss data pth st' = run_scopes d cs ss data pth st'" for st'
    using Cons.prems by (intro Cons.IH) simp
  show ?case by (simp add: a b split: sum.splits prod.splits)
qed

lemma run_ignores_FILE_ALL:
  assumes "d FILE = Some m"
  shows "run w vb pth (d(FILE \<mapsto> m(Cond_ALL \<mapsto> ls))) = run w vb pth d"
proof -
  let ?d = "d(FILE \<mapsto> m(Cond_ALL \<mapsto> ls))"
  have lk: "lookup_lints ?d FILE Cond_ANY = lookup_lints d FILE Cond_ANY"
    using assms by (simp add: lookup_lints_def)
  have rs: "run_scopes ?d cs [CELLS, CODE, TEXT] data pth st =
            run_scopes d cs [CELLS, CODE, TEXT] data pth st" for cs data st
    by (rule run_scopes_cong) simp
  show ?thesis by (simp only: run_def lk rs)
qed

lemma filter_no_group_block:
  "filter (\<lambda>e. group e = None) (concat (map (\<lambda>l. rule_block l data pth) ls)) = []"
  by (auto simp: filter_empty_conv rule_block_def member_entries_def)

lemma filter_no_group_file:
  "filter (\<lambda>e. group e = None) (map (file_entry source data pth) fl) =
     map (file_entry source data pth) fl"
  by (induction fl) simp_all

text \<open>
  C4 (as amended). The entries of a report that carry no group key are one per rule in
  the registry's list for \<^verbatim>\<open>FILE\<close> and \<^verbatim>\<open>ANY\<close>, in the order of the list; none is a
  member entry, and the verdict of each is what the rule's callback returned on the raw
  text, the parsed document and the path. What the registry holds for \<^verbatim>\<open>FILE\<close> and
  \<^verbatim>\<open>ALL\<close> has no effect on \<open>run\<close>.
\<close>

theorem file_rule_entries:
  assumes "run w vb pth d = Inr (Report st)"
    and "read_text w pth = Some source" and "json_loads w source = Some data"
  shows "filter (\<lambda>e. group e = None) (status_list st) =
           map (\<lambda>l. \<lparr>lint = l, is_success = (lint_run l source data pth = PBool True),
                      entry_name = name l, group = None, is_group_entry = False\<rparr>)
             (lints_at d FILE Cond_ANY) \<and>
         (\<forall>l\<in>set (lints_at d FILE Cond_ANY). isinstance_bool (lint_run l source data pth)) \<and>
         (\<forall>m ls. d FILE = Some m \<longrightarrow>
            run w vb pth (d(FILE \<mapsto> m(Cond_ALL \<mapsto> ls))) = run w vb pth d)"
proof (intro conjI)
  note r = report_structure [OF assms]
  have "filter (\<lambda>e. group e = None) (status_list st) =
        map (file_entry source data pth) (lints_at d FILE Cond_ANY)"
    by (simp add: r(1) filter_no_group_block filter_no_group_file)
  also have "\<dots> = map (\<lambda>l. \<lparr>lint = l, is_success = (lint_run l source data pth = PBool True),
                      entry_name = name l, group = None, is_group_entry = False\<rparr>)
             (lints_at d FILE Cond_ANY)"
    using r(3) by (simp add: file_entry_def truthy_bool)
  finally show "filter (\<lambda>e. group e = None) (status_list st) =
           map (\<lambda>l. \<lparr>lint = l, is_success = (lint_run l source data pth = PBool True),
                      entry_name = name l, group = None, is_group_entry = False\<rparr>)
             (lints_at d FILE Cond_ANY)" .
  show "\<forall>l\<in>set (lints_at d FILE Cond_ANY). isinstance_bool (lint_run l source data pth)"
    by (rule r(3))
  show "\<forall>m ls. d FILE = Some m \<longrightarrow>
            run w vb pth (d(FILE \<mapsto> m(Cond_ALL \<mapsto> ls))) = run w vb pth d"
    by (simp add: run_ignores_FILE_ALL)
qed

text \<open>
  A rule registered under \<^verbatim>\<open>FILE\<close> and \<^verbatim>\<open>ALL\<close> is never run: the report has no entry.
\<close>

theorem file_rule_entries_counterexample:
  "lookup_lints ex_dict_file_all FILE Cond_ALL = Inr [ex_file_all_lint] \<and>
   run (ex_world ex_source (Some ex_doc)) False ''nb.ipynb'' ex_dict_file_all =
     Inr (Report \<lparr>status_path = ''nb.ipynb'', verbose = False, status_list = []\<rparr>)"
  by (simp add: run_def load_notebook_def ex_world_def ex_doc_def ex_dict_file_all_def
      lookup_lints_def LinterStatus_init_def)

theorem file_rule_entries_witness:
  "run (ex_world ex_source (Some ex_doc)) True ''nb.ipynb'' ex_dict = Inr (Report ex_report) \<and>
   filter (\<lambda>e. group e = None) (status_list ex_report) =
     [\<lparr>lint = ex_file_lint, is_success = True, entry_name = ''not_translation'',
       group = None, is_group_entry = False\<rparr>]"
proof -
  have fl: "lints_at ex_dict FILE Cond_ANY = [ex_file_lint]"
    by (simp add: lints_at_def lookup_lints_def ex_dict_def)
  from file_rule_entries [OF ex_run ex_world_fields(1) ex_world_fields(2)]
  have "filter (\<lambda>e. group e = None) (status_list ex_report) =
     [\<lparr>lint = ex_file_lint, is_success = True, entry_name = ''not_translation'',
       group = None, is_group_entry = False\<rparr>]"
    by (simp add: fl ex_lint_fields)
  with ex_run show ?thesis by blast
qed

section \<open>Verdicts that are not Booleans\<close>

lemma add_entry_raises:
  "\<not> isinstance_bool v \<Longrightarrow> add_entry l v nm grp m st = (Inl (not_boolean_error v), st)"
  by (cases v) (simp_all add: add_entry_def not_boolean_error_def)

lemma lint_cells_raises:
  assumes "py_get cell ''cell_type'' = Inr ct" and "matches_scope (scope l) cell"
    and "py_getitem cell ''source'' = Inr src" and "py_join src = Inr s"
    and "\<not> isinstance_bool (lint_run l s cell pth)"
  shows "lint_cells l pth ((i, cell) # rest) acc st =
           (Inl (not_boolean_error (lint_run l s cell pth)), st)"
proof -
  have ct: "cell_type_of cell = ct" using assms(1) by (simp add: cell_type_of_def)
  have keep: "\<not> (scope l = TEXT \<and> ct \<noteq> JStr ''markdown'')"
    "\<not> (scope l = CODE \<and> ct \<noteq> JStr ''code'')"
    using assms(2) ct by (cases "scope l"; simp add: matches_scope_def)+
  show ?thesis
    using assms(1,3,4) keep by (auto simp: Let_def add_entry_raises [OF assms(5)])
qed

lemma run_file_lints_prefix:
  "\<forall>l\<in>set ls1. isinstance_bool (lint_run l source data pth) \<Longrightarrow>
   run_file_lints (ls1 @ ls2) source data pth st =
     run_file_lints ls2 source data pth
       (st\<lparr>status_list := status_list st @ map (file_entry source data pth) ls1\<rparr>)"
proof (induction ls1 arbitrary: st)
  case Nil
  show ?case by simp
next
  case (Cons l ls1)
  from Cons.prems obtain b where b: "lint_run l source data pth = PBool b"
    by (cases "lint_run l source data pth") auto
  have ae: "add_entry l (lint_run l source data pth) None None False st =
        (Inr (), st\<lparr>status_list := status_list st @ [file_entry source data pth l]\<rparr>)"
    by (simp add: b add_entry_bool file_entry_def)
  have "run_file_lints ((l # ls1) @ ls2) source data pth st =
        run_file_lints (ls1 @ ls2) source data pth
          (st\<lparr>status_list := status_list st @ [file_entry source data pth l]\<rparr>)"
    by (simp add: Let_def ae)
  also have "\<dots> = run_file_lints ls2 source data pth
       (st\<lparr>status_list := status_list st @ map (file_entry source data pth) (l # ls1)\<rparr>)"
    using Cons.prems by (subst Cons.IH) simp_all
  finally show ?case .
qed

lemma run_file_lints_raises:
  assumes "\<forall>l'\<in>set ls1. isinstance_bool (lint_run l' source data pth)"
    and "\<not> isinstance_bool (lint_run l source data pth)"
  shows "fst (run_file_lints (ls1 @ l # ls2) source data pth st) =
           Inl (not_boolean_error (lint_run l source data pth))"
  by (simp add: run_file_lints_prefix [OF assms(1)] Let_def add_entry_raises [OF assms(2)])

lemma run_parsed_not_Failure:
  assumes "read_text w pth = Some source" and "json_loads w source = Some data"
  shows "run w vb pth d \<noteq> Inr Failure"
proof (cases "has_cells_list data")
  case True
  from load_notebook_good [OF assms True] show ?thesis by (rule run_not_Failure)
next
  case False
  show ?thesis
  proof (cases "is_mapping data")
    case True
    from load_notebook_no_cells [OF assms True False] show ?thesis by (simp add: run_def)
  next
    case no: False
    from load_notebook_not_mapping [OF assms no] show ?thesis by (simp add: run_def)
  qed
qed

lemma report_verdicts_bool:
  assumes "run w vb pth d = Inr (Report st)"
    and "read_text w pth = Some source" and "json_loads w source = Some data"
  shows "\<forall>l\<in>set (lints_at d FILE Cond_ANY). isinstance_bool (lint_run l source data pth)"
    and "\<forall>l\<in>set (dispatched d (Cond_members w)). \<forall>c\<in>set (cells_of data).
           matches_scope (scope l) c \<longrightarrow> isinstance_bool (lint_run l (cell_source c) c pth)"
proof -
  note r = report_structure [OF assms]
  show "\<forall>l\<in>set (lints_at d FILE Cond_ANY). isinstance_bool (lint_run l source data pth)"
    by (rule r(3))
  show "\<forall>l\<in>set (dispatched d (Cond_members w)). \<forall>c\<in>set (cells_of data).
           matches_scope (scope l) c \<longrightarrow> isinstance_bool (lint_run l (cell_source c) c pth)"
  proof (intro ballI impI)
    fix l c
    assume l: "l \<in> set (dispatched d (Cond_members w))"
      and c: "c \<in> set (cells_of data)" "matches_scope (scope l) c"
    from r(4) l have "list_all isinstance_bool (cell_verdicts l data pth)"
      by (simp add: rule_ok_def)
    moreover from c have "lint_run l (cell_source c) c pth \<in> set (cell_verdicts l data pth)"
      unfolding set_cell_verdicts by blast
    ultimately show "isinstance_bool (lint_run l (cell_source c) c pth)"
      by (simp add: list_all_iff)
  qed
qed

text \<open>
  C5 (as amended). On a verdict that is not a Boolean, \<^verbatim>\<open>add_entry\<close> raises a
  \<^verbatim>\<open>TypeError\<close> and leaves the report as it was; the message is
  \<^verbatim>\<open>Lint status must return Boolean, got: \<close> followed by the value returned, and does
  not depend on the rule. Both loops stop there with that error: the cell loop at the
  first kept cell whose verdict is no Boolean, and \<open>run\<close> at the first file-level rule
  whose verdict is no Boolean. A run in which some callback returns such a verdict, on
  the file or on a cell its scope keeps, ends in an error and gives no report.
\<close>

theorem non_boolean_verdict_raises:
  "(\<not> isinstance_bool v \<longrightarrow>
      add_entry l v nm grp m st = (Inl (not_boolean_error v), st)) \<and>
   (py_get cell ''cell_type'' = Inr ct \<and> matches_scope (scope l) cell \<and>
    py_getitem cell ''source'' = Inr src \<and> py_join src = Inr s \<and>
    \<not> isinstance_bool (lint_run l s cell pth) \<longrightarrow>
      lint_cells l pth ((i, cell) # rest) acc st =
        (Inl (not_boolean_error (lint_run l s cell pth)), st)) \<and>
   (read_text w pth = Some source \<and> json_loads w source = Some data \<and> has_cells_list data \<and>
    lookup_lints d FILE Cond_ANY = Inr (ls1 @ l # ls2) \<and>
    (\<forall>l'\<in>set ls1. isinstance_bool (lint_run l' source data pth)) \<and>
    \<not> isinstance_bool (lint_run l source data pth) \<longrightarrow>
      run w vb pth d = Inl (not_boolean_error (lint_run l source data pth))) \<and>
   (read_text w pth = Some source \<and> json_loads w source = Some data \<and>
    ((\<exists>l'\<in>set (lints_at d FILE Cond_ANY). \<not> isinstance_bool (lint_run l' source data pth)) \<or>
     (\<exists>l'\<in>set (dispatched d (Cond_members w)). \<exists>c\<in>set (cells_of data).
        matches_scope (scope l') c \<and> \<not> isinstance_bool (lint_run l' (cell_source c) c pth))) \<longrightarrow>
      (\<exists>e. run w vb pth d = Inl e))"
proof (intro conjI impI)
  assume "\<not> isinstance_bool v"
  then show "add_entry l v nm grp m st = (Inl (not_boolean_error v), st)"
    by (rule add_entry_raises)
next
  assume "py_get cell ''cell_type'' = Inr ct \<and> matches_scope (scope l) cell \<and>
    py_getitem cell ''source'' = Inr src \<and> py_join src = Inr s \<and>
    \<not> isinstance_bool (lint_run l s cell pth)"
  then show "lint_cells l pth ((i, cell) # rest) acc st =
        (Inl (not_boolean_error (lint_run l s cell pth)), st)"
    using lint_cells_raises by blast
next
  assume a: "read_text w pth = Some source \<and> json_loads w source = Some data \<and>
    has_cells_list data \<and> lookup_lints d FILE Cond_ANY = Inr (ls1 @ l # ls2) \<and>
    (\<forall>l'\<in>set ls1. isinstance_bool (lint_run l' source data pth)) \<and>
    \<not> isinstance_bool (lint_run l source data pth)"
  then have ld: "load_notebook w pth = Inr (data, source)" and tr: "json_truthy data"
    using load_notebook_good by blast+
  from a have "fst (run_file_lints (ls1 @ l # ls2) source data pth (LinterStatus_init pth vb)) =
      Inl (not_boolean_error (lint_run l source data pth))"
    using run_file_lints_raises by blast
  then obtain st' where
    "run_file_lints (ls1 @ l # ls2) source data pth (LinterStatus_init pth vb) =
       (Inl (not_boolean_error (lint_run l source data pth)), st')"
    by (cases "run_file_lints (ls1 @ l # ls2) source data pth (LinterStatus_init pth vb)") simp
  with a ld tr show "run w vb pth d = Inl (not_boolean_error (lint_run l source data pth))"
    by (simp add: run_def Let_def)
next
  assume a: "read_text w pth = Some source \<and> json_loads w source = Some data \<and>
    ((\<exists>l'\<in>set (lints_at d FILE Cond_ANY). \<not> isinstance_bool (lint_run l' source data pth)) \<or>
     (\<exists>l'\<in>set (dispatched d (Cond_members w)). \<exists>c\<in>set (cells_of data).
        matches_scope (scope l') c \<and> \<not> isinstance_bool (lint_run l' (cell_source c) c pth)))"
  then have rd: "read_text w pth = Some source" and ps: "json_loads w source = Some data"
    by blast+
  show "\<exists>e. run w vb pth d = Inl e"
  proof (cases "run w vb pth d")
    case (Inl e)
    then show ?thesis by blast
  next
    case (Inr res)
    show ?thesis
    proof (cases res)
      case Failure
      with Inr run_parsed_not_Failure [OF rd ps] show ?thesis by simp
    next
      case (Report st')
      with Inr have "run w vb pth d = Inr (Report st')" by simp
      from report_verdicts_bool [OF this rd ps] a show ?thesis by blast
    qed
  qed
qed

text \<open>
  Two rules with different names whose callbacks return \<^verbatim>\<open>None\<close> end the run with
  the same error: the message names the value, not the rule.
\<close>

theorem non_boolean_verdict_counterexample:
  "run (ex_world ex_source (Some ex_doc)) False ''nb.ipynb'' (ex_dict_bad ''rule_a'') =
     Inl (TypeError ''Lint status must return Boolean, got: None'') \<and>
   run (ex_world ex_source (Some ex_doc)) False ''nb.ipynb'' (ex_dict_bad ''rule_b'') =
     Inl (TypeError ''Lint status must return Boolean, got: None'')"
  by (simp add: run_def load_notebook_def ex_world_def ex_doc_def ex_dict_bad_def
      ex_bad_lint_def lookup_lints_def LinterStatus_init_def add_entry_def Let_def)

theorem non_boolean_verdict_raises_witness:
  "add_entry (ex_bad_lint ''rule_a'') PNone None None False (LinterStatus_init ''nb.ipynb'' False) =
     (Inl (TypeError ''Lint status must return Boolean, got: None''),
      LinterStatus_init ''nb.ipynb'' False) \<and>
   has_cells_list ex_doc \<and>
   lookup_lints (ex_dict_bad ''rule_a'') FILE Cond_ANY = Inr [ex_bad_lint ''rule_a''] \<and>
   run (ex_world ex_source (Some ex_doc)) False ''nb.ipynb'' (ex_dict_bad ''rule_a'') =
     Inl (TypeError ''Lint status must return Boolean, got: None'')"
proof -
  have v: "lint_run (ex_bad_lint ''rule_a'') source data pth = PNone" for source data pth
    by (simp add: ex_bad_lint_def)
  have h: "has_cells_list ex_doc"
    by (simp add: has_cells_list_def ex_doc_def)
  have lk: "lookup_lints (ex_dict_bad ''rule_a'') FILE Cond_ANY = Inr ([] @ ex_bad_lint ''rule_a'' # [])"
    by (simp add: lookup_lints_def ex_dict_bad_def)
  have a: "add_entry (ex_bad_lint ''rule_a'') PNone None None False
             (LinterStatus_init ''nb.ipynb'' False) =
           (Inl (TypeError ''Lint status must return Boolean, got: None''),
            LinterStatus_init ''nb.ipynb'' False)"
    using non_boolean_verdict_raises [of PNone "ex_bad_lint ''rule_a''" None None False
        "LinterStatus_init ''nb.ipynb'' False"]
    by (simp add: not_boolean_error_def)
  have b: "run (ex_world ex_source (Some ex_doc)) False ''nb.ipynb'' (ex_dict_bad ''rule_a'') =
     Inl (TypeError ''Lint status must return Boolean, got: None'')"
    using non_boolean_verdict_raises [where l = "ex_bad_lint ''rule_a''"
        and w = "ex_world ex_source (Some ex_doc)" and pth = "''nb.ipynb''" and source = ex_source
        and data = ex_doc and d = "ex_dict_bad ''rule_a''" and ?ls1.0 = "[]" and ?ls2.0 = "[]"
        and vb = False]
      h lk
    by (simp add: ex_world_fields v not_boolean_error_def)
  from a b h lk show ?thesis by simp
qed

section \<open>Rendering\<close>

lemma collect_groups_lookup:
  "collect_groups es g k =
     (case g k of
        None \<Rightarrow>
          (if filter (\<lambda>e. is_group_entry e \<and> group e = k) es = [] then None
           else Some (filter (\<lambda>e. is_group_entry e \<and> group e = k) es))
      | Some xs \<Rightarrow> Some (xs @ filter (\<lambda>e. is_group_entry e \<and> group e = k) es))"
proof (induction es arbitrary: g)
  case Nil
  show ?case by (simp split: option.splits)
next
  case (Cons e es)
  show ?case
  proof (cases "is_group_entry e")
    case False
    then show ?thesis by (cases "g k") (simp_all add: Cons.IH)
  next
    case True
    show ?thesis
    proof (cases "g (group e)")
      case None
      with True show ?thesis by (cases "group e = k") (auto simp: Cons.IH split: option.splits)
    next
      case (Some xs)
      with True show ?thesis by (cases "group e = k") (auto simp: Cons.IH split: option.splits)
    qed
  qed
qed

lemma collect_groups_empty:
  "collect_groups es Map.empty k =
     (if filter (\<lambda>e. is_group_entry e \<and> group e = k) es = [] then None
      else Some (filter (\<lambda>e. is_group_entry e \<and> group e = k) es))"
  by (simp add: collect_groups_lookup)

lemma render_children_concat:
  "render_children children out = out @ concat (map child_line children)"
  by (induction children arbitrary: out) simp_all

lemma child_block_append:
  "child_block vb groups entry out = out @ child_block vb groups entry []"
  by (simp add: child_block_def render_children_concat split: option.splits)

lemma render_roots_concat:
  "render_roots vb groups entries out =
     out @ concat (map (\<lambda>e. root_line e @ child_block vb groups e []) entries)"
proof (induction entries arbitrary: out)
  case Nil
  show ?case by simp
next
  case (Cons e entries)
  have "render_roots vb groups (e # entries) out =
        render_roots vb groups entries (child_block vb groups e (out @ root_line e))"
    by simp
  also have "\<dots> = child_block vb groups e (out @ root_line e) @
        concat (map (\<lambda>e. root_line e @ child_block vb groups e []) entries)"
    by (rule Cons.IH)
  also have "child_block vb groups e (out @ root_line e) =
        (out @ root_line e) @ child_block vb groups e []"
    by (rule child_block_append)
  finally show ?case by simp
qed

lemma format_status_text: "format_status e = status_text e"
  by (simp add: format_status_def status_text_def pass_text_def member_fail_text_def
      root_fail_text_def ESC_def)

lemma child_line_text: "child_line = member_line_text"
  by (rule ext) (simp add: child_line_def member_line_text_def format_status_text newline_def)

lemma root_line_is_text: "root_line r = root_line_text r"
  by (simp add: root_line_def root_line_text_def format_status_text newline_def Let_def
      split: option.splits)

lemma child_block_verbose:
  "child_block True (collect_groups es Map.empty) e [] =
     children_text (filter (\<lambda>c. is_group_entry c \<and> group c = group e) es)"
  by (simp add: child_block_def collect_groups_empty children_text_def render_children_concat
      child_line_text newline_def)

lemma children_text_contains:
  assumes "c \<in> set children"
  shows "\<exists>pre post. children_text children = pre @ member_line_text c @ post"
proof -
  from assms obtain xs ys where ch: "children = xs @ c # ys"
    by (auto simp: in_set_conv_decomp)
  have "children_text children =
        (''[All results]'' @ [CHR 0x0A] @ concat (map member_line_text xs)) @
        member_line_text c @ (concat (map member_line_text ys) @ [CHR 0x0A])"
    by (simp add: children_text_def ch)
  then show ?thesis by blast
qed

lemma member_group_in_report:
  assumes "status_list st =
           map (file_entry source data pth) fl @ concat (map (\<lambda>l. rule_block l data pth) ls)"
    and "c \<in> set (status_list st)" and "is_group_entry c"
  shows "group c = Some (name (lint c))"
  using assms by (auto simp: rule_block_def member_entries_def)

text \<open>
  C10. The rendering of a verbose report is, for each entry that is not a member, its
  line followed by the block of the member entries that carry the same group key. The
  block beneath the aggregate entry of a rule is the heading \<^verbatim>\<open>[All results]\<close>, then
  one line (dash, coloured status, name) for every member entry of the report whose
  rule has that name, in report order, then an empty line: the lines of the member
  entries of any other rule with the same name stand in it as well.
\<close>

theorem verbose_children_by_name:
  assumes "run w True pth d = Inr (Report st)"
    and "read_text w pth = Some source" and "json_loads w source = Some data"
    and "e \<in> set (status_list st)" and "aggregate_of l1 e"
    and "name l2 = name l1"
  shows "LinterStatus_str st =
           concat (map (\<lambda>r. root_line_text r @
                        children_text
                          (filter (\<lambda>c. is_group_entry c \<and> group c = group r) (status_list st)))
                    (filter (\<lambda>r. \<not> is_group_entry r) (status_list st))) \<and>
         child_block True (collect_groups (status_list st) Map.empty) e [] =
           children_text
             (filter (\<lambda>c. is_group_entry c \<and> name (lint c) = name l1) (status_list st)) \<and>
         (\<forall>c\<in>set (status_list st). member_of l1 c \<or> member_of l2 c \<longrightarrow>
            (\<exists>pre post.
               child_block True (collect_groups (status_list st) Map.empty) e [] =
                 pre @ ''- '' @ status_text c @ '' | '' @ entry_name c @ [CHR 0x0A] @ post))"
proof (intro conjI)
  note r = report_structure [OF assms(1,2,3)]
  show "LinterStatus_str st =
           concat (map (\<lambda>r. root_line_text r @
                        children_text
                          (filter (\<lambda>c. is_group_entry c \<and> group c = group r) (status_list st)))
                    (filter (\<lambda>r. \<not> is_group_entry r) (status_list st)))"
    by (simp add: LinterStatus_str_def r(2) render_roots_concat root_line_is_text
        child_block_verbose)
  have g: "group e = Some (name l1)" using assms(5) by (simp add: aggregate_of_def)
  have "filter (\<lambda>c. is_group_entry c \<and> group c = group e) (status_list st) =
        filter (\<lambda>c. is_group_entry c \<and> name (lint c) = name l1) (status_list st)"
  proof (rule filter_cong [OF refl])
    fix c assume "c \<in> set (status_list st)"
    then show "(is_group_entry c \<and> group c = group e) =
               (is_group_entry c \<and> name (lint c) = name l1)"
      using member_group_in_report [OF r(1)] g by auto
  qed
  then have blk: "child_block True (collect_groups (status_list st) Map.empty) e [] =
           children_text
             (filter (\<lambda>c. is_group_entry c \<and> name (lint c) = name l1) (status_list st))"
    by (simp add: child_block_verbose)
  then show "child_block True (collect_groups (status_list st) Map.empty) e [] =
           children_text
             (filter (\<lambda>c. is_group_entry c \<and> name (lint c) = name l1) (status_list st))" .
  show "\<forall>c\<in>set (status_list st). member_of l1 c \<or> member_of l2 c \<longrightarrow>
            (\<exists>pre post.
               child_block True (collect_groups (status_list st) Map.empty) e [] =
                 pre @ ''- '' @ status_text c @ '' | '' @ entry_name c @ [CHR 0x0A] @ post)"
  proof (intro ballI impI)
    fix c assume c: "c \<in> set (status_list st)" and m: "member_of l1 c \<or> member_of l2 c"
    from c m assms(6) have
      "c \<in> set (filter (\<lambda>c. is_group_entry c \<and> name (lint c) = name l1) (status_list st))"
      by (auto simp: member_of_def)
    from children_text_contains [OF this] obtain pre post where
      "children_text
         (filter (\<lambda>c. is_group_entry c \<and> name (lint c) = name l1) (status_list st)) =
       pre @ member_line_text c @ post"
      by blast
    with blk show "\<exists>pre post.
               child_block True (collect_groups (status_list st) Map.empty) e [] =
                 pre @ ''- '' @ status_text c @ '' | '' @ entry_name c @ [CHR 0x0A] @ post"
      by (auto simp: member_line_text_def)
  qed
qed

lemma ex_dup_fields:
  "name ex_dup_code_lint = ''check''" "scope ex_dup_code_lint = CODE"
  "cond ex_dup_code_lint = Some Cond_ANY"
  "lint_run ex_dup_code_lint = (\<lambda>source cell pth. PBool (source \<noteq> []))"
  "name ex_dup_text_lint = ''check''" "scope ex_dup_text_lint = TEXT"
  "cond ex_dup_text_lint = Some Cond_ANY"
  "lint_run ex_dup_text_lint = (\<lambda>source cell pth. PBool True)"
  "style ex_dup_code_lint = ''tensorflow''" "message ex_dup_code_lint = None"
  "style ex_dup_text_lint = ''tensorflow''" "message ex_dup_text_lint = None"
  by (simp_all add: ex_dup_code_lint_def ex_dup_text_lint_def)

lemma ex_run_dup:
  "run (ex_world ex_source (Some ex_doc)) True ''nb.ipynb'' ex_dict_dup = Inr (Report ex_report_dup)"
  by (simp add: run_def load_notebook_def ex_world_def ex_doc_def ex_cell_def ex_dict_dup_def
      lookup_lints_def LinterStatus_init_def add_entry_def run_lint_group_def enumerate_list_def
      py_any_def py_all_def ex_report_dup_def mk_entry_def str_of_nat_small ex_dup_fields
      Let_def)

theorem verbose_children_by_name_witness:
  "run (ex_world ex_source (Some ex_doc)) True ''nb.ipynb'' ex_dict_dup = Inr (Report ex_report_dup) \<and>
   ex_dup_code_lint \<noteq> ex_dup_text_lint \<and>
   name ex_dup_code_lint = name ex_dup_text_lint \<and>
   child_block True (collect_groups (status_list ex_report_dup) Map.empty)
     (mk_entry ex_dup_text_lint True ''check'' (Some ''check'') False) [] =
   ''[All results]'' @ [CHR 0x0A] @
   ''- '' @ [CHR 0x1B] @ ''[32mPass'' @ [CHR 0x1B] @ ''[00m'' @ '' | check__cell_0'' @ [CHR 0x0A] @
   ''- '' @ [CHR 0x1B] @ ''[33mFail'' @ [CHR 0x1B] @ ''[00m'' @ '' | check__cell_2'' @ [CHR 0x0A] @
   ''- '' @ [CHR 0x1B] @ ''[32mPass'' @ [CHR 0x1B] @ ''[00m'' @ '' | check__cell_1'' @ [CHR 0x0A] @
   [CHR 0x0A] \<and>
   LinterStatus_str ex_report_dup =
   [CHR 0x1B] @ ''[32mPass'' @ [CHR 0x1B] @ ''[00m'' @ '' | tensorflow::check'' @ [CHR 0x0A] @
   ''[All results]'' @ [CHR 0x0A] @
   ''- '' @ [CHR 0x1B] @ ''[32mPass'' @ [CHR 0x1B] @ ''[00m'' @ '' | check__cell_0'' @ [CHR 0x0A] @
   ''- '' @ [CHR 0x1B] @ ''[33mFail'' @ [CHR 0x1B] @ ''[00m'' @ '' | check__cell_2'' @ [CHR 0x0A] @
   ''- '' @ [CHR 0x1B] @ ''[32mPass'' @ [CHR 0x1B] @ ''[00m'' @ '' | check__cell_1'' @ [CHR 0x0A] @
   [CHR 0x0A] @
   [CHR 0x1B] @ ''[32mPass'' @ [CHR 0x1B] @ ''[00m'' @ '' | tensorflow::check'' @ [CHR 0x0A] @
   ''[All results]'' @ [CHR 0x0A] @
   ''- '' @ [CHR 0x1B] @ ''[32mPass'' @ [CHR 0x1B] @ ''[00m'' @ '' | check__cell_0'' @ [CHR 0x0A] @
   ''- '' @ [CHR 0x1B] @ ''[33mFail'' @ [CHR 0x1B] @ ''[00m'' @ '' | check__cell_2'' @ [CHR 0x0A] @
   ''- '' @ [CHR 0x1B] @ ''[32mPass'' @ [CHR 0x1B] @ ''[00m'' @ '' | check__cell_1'' @ [CHR 0x0A] @
   [CHR 0x0A]"
proof -
  have ne: "ex_dup_code_lint \<noteq> ex_dup_text_lint"
    by (simp add: ex_dup_code_lint_def ex_dup_text_lint_def)
  have nm: "name ex_dup_code_lint = name ex_dup_text_lint"
    by (simp add: ex_dup_fields)
  have e: "mk_entry ex_dup_text_lint True ''check'' (Some ''check'') False
             \<in> set (status_list ex_report_dup)"
    by (simp add: ex_report_dup_def)
  have a: "aggregate_of ex_dup_text_lint (mk_entry ex_dup_text_lint True ''check'' (Some ''check'') False)"
    by (simp add: aggregate_of_def mk_entry_def ex_dup_fields)
  note t = verbose_children_by_name [OF ex_run_dup ex_world_fields(1) ex_world_fields(2) e a nm]
  from t have "child_block True (collect_groups (status_list ex_report_dup) Map.empty)
     (mk_entry ex_dup_text_lint True ''check'' (Some ''check'') False) [] =
     children_text
       (filter (\<lambda>c. is_group_entry c \<and> name (lint c) = name ex_dup_text_lint)
          (status_list ex_report_dup))"
    by blast
  also have "\<dots> =
   ''[All results]'' @ [CHR 0x0A] @
   ''- '' @ [CHR 0x1B] @ ''[32mPass'' @ [CHR 0x1B] @ ''[00m'' @ '' | check__cell_0'' @ [CHR 0x0A] @
   ''- '' @ [CHR 0x1B] @ ''[33mFail'' @ [CHR 0x1B] @ ''[00m'' @ '' | check__cell_2'' @ [CHR 0x0A] @
   ''- '' @ [CHR 0x1B] @ ''[32mPass'' @ [CHR 0x1B] @ ''[00m'' @ '' | check__cell_1'' @ [CHR 0x0A] @
   [CHR 0x0A]"
    by (simp add: children_text_def member_line_text_def status_text_def pass_text_def
        member_fail_text_def ex_report_dup_def mk_entry_def ex_dup_fields)
  finally have blk: "child_block True (collect_groups (status_list ex_report_dup) Map.empty)
     (mk_entry ex_dup_text_lint True ''check'' (Some ''check'') False) [] =
   ''[All results]'' @ [CHR 0x0A] @
   ''- '' @ [CHR 0x1B] @ ''[32mPass'' @ [CHR 0x1B] @ ''[00m'' @ '' | check__cell_0'' @ [CHR 0x0A] @
   ''- '' @ [CHR 0x1B] @ ''[33mFail'' @ [CHR 0x1B] @ ''[00m'' @ '' | check__cell_2'' @ [CHR 0x0A] @
   ''- '' @ [CHR 0x1B] @ ''[32mPass'' @ [CHR 0x1B] @ ''[00m'' @ '' | check__cell_1'' @ [CHR 0x0A] @
   [CHR 0x0A]" .
  from t have "LinterStatus_str ex_report_dup =
           concat (map (\<lambda>r. root_line_text r @
                        children_text
                          (filter (\<lambda>c. is_group_entry c \<and> group c = group r)
                             (status_list ex_report_dup)))
                    (filter (\<lambda>r. \<not> is_group_entry r) (status_list ex_report_dup)))"
    by blast
  also have "\<dots> =
   [CHR 0x1B] @ ''[32mPass'' @ [CHR 0x1B] @ ''[00m'' @ '' | tensorflow::check'' @ [CHR 0x0A] @
   ''[All results]'' @ [CHR 0x0A] @
   ''- '' @ [CHR 0x1B] @ ''[32mPass'' @ [CHR 0x1B] @ ''[00m'' @ '' | check__cell_0'' @ [CHR 0x0A] @
   ''- '' @ [CHR 0x1B] @ ''[33mFail'' @ [CHR 0x1B] @ ''[00m'' @ '' | check__cell_2'' @ [CHR 0x0A] @
   ''- '' @ [CHR 0x1B] @ ''[32mPass'' @ [CHR 0x1B] @ ''[00m'' @ '' | check__cell_1'' @ [CHR 0x0A] @
   [CHR 0x0A] @
   [CHR 0x1B] @ ''[32mPass'' @ [CHR 0x1B] @ ''[00m'' @ '' | tensorflow::check'' @ [CHR 0x0A] @
   ''[All results]'' @ [CHR 0x0A] @
   ''- '' @ [CHR 0x1B] @ ''[32mPass'' @ [CHR 0x1B] @ ''[00m'' @ '' | check__cell_0'' @ [CHR 0x0A] @
   ''- '' @ [CHR 0x1B] @ ''[33mFail'' @ [CHR 0x1B] @ ''[00m'' @ '' | check__cell_2'' @ [CHR 0x0A] @
   ''- '' @ [CHR 0x1B] @ ''[32mPass'' @ [CHR 0x1B] @ ''[00m'' @ '' | check__cell_1'' @ [CHR 0x0A] @
   [CHR 0x0A]"
    by (simp add: children_text_def member_line_text_def root_line_text_def status_text_def
        pass_text_def member_fail_text_def ex_report_dup_def mk_entry_def ex_dup_fields)
  finally have str: "LinterStatus_str ex_report_dup =
   [CHR 0x1B] @ ''[32mPass'' @ [CHR 0x1B] @ ''[00m'' @ '' | tensorflow::check'' @ [CHR 0x0A] @
   ''[All results]'' @ [CHR 0x0A] @
   ''- '' @ [CHR 0x1B] @ ''[32mPass'' @ [CHR 0x1B] @ ''[00m'' @ '' | check__cell_0'' @ [CHR 0x0A] @
   ''- '' @ [CHR 0x1B] @ ''[33mFail'' @ [CHR 0x1B] @ ''[00m'' @ '' | check__cell_2'' @ [CHR 0x0A] @
   ''- '' @ [CHR 0x1B] @ ''[32mPass'' @ [CHR 0x1B] @ ''[00m'' @ '' | check__cell_1'' @ [CHR 0x0A] @
   [CHR 0x0A] @
   [CHR 0x1B] @ ''[32mPass'' @ [CHR 0x1B] @ ''[00m'' @ '' | tensorflow::check'' @ [CHR 0x0A] @
   ''[All results]'' @ [CHR 0x0A] @
   ''- '' @ [CHR 0x1B] @ ''[32mPass'' @ [CHR 0x1B] @ ''[00m'' @ '' | check__cell_0'' @ [CHR 0x0A] @
   ''- '' @ [CHR 0x1B] @ ''[33mFail'' @ [CHR 0x1B] @ ''[00m'' @ '' | check__cell_2'' @ [CHR 0x0A] @
   ''- '' @ [CHR 0x1B] @ ''[32mPass'' @ [CHR 0x1B] @ ''[00m'' @ '' | check__cell_1'' @ [CHR 0x0A] @
   [CHR 0x0A]" .
  from ex_run_dup ne nm blk str show ?thesis by (intro conjI)
qed

end
